theory Spec2Isabelle
  imports Main "HOL-Library.Word"
begin

unbundle bit_operations_syntax

section \<open>NMRP message codec and handshake (nmrp.c)\<close>

text \<open>
  A shallow embedding of \<^verbatim>\<open>src/nmrp.c\<close>. Structs are records whose fields carry a
  prefix (\<open>o_\<close> for \<^verbatim>\<open>struct nmrp_opt\<close>, \<open>m_\<close> for \<^verbatim>\<open>struct nmrp_msg\<close>,
  \<open>eh_\<close> for \<^verbatim>\<open>struct ether_header\<close>, \<open>p_\<close> for \<^verbatim>\<open>struct nmrp_pkt\<close>), because
  \<^verbatim>\<open>len\<close>, \<^verbatim>\<open>type\<close> and \<^verbatim>\<open>id\<close> occur in several structs or clash with HOL.
  Fixed-width C integers are words; \<^verbatim>\<open>int\<close> variables whose values stay far inside
  32 bits (\<^verbatim>\<open>remaining\<close>, \<^verbatim>\<open>err\<close>, \<^verbatim>\<open>ulreqs\<close>, \<^verbatim>\<open>expect\<close>) are \<open>int\<close>.
\<close>

subsection \<open>Constants and data\<close>

type_synonym u8 = "8 word"
type_synonym u16 = "16 word"
type_synonym u32 = "32 word"

definition NMRP_HDR_LEN :: nat where "NMRP_HDR_LEN = 6"
definition NMRP_OPT_LEN :: nat where "NMRP_OPT_LEN = 4"
definition ETH_HDR_LEN :: nat where "ETH_HDR_LEN = 14"
definition NMRP_MIN_PKT_LEN :: nat where "NMRP_MIN_PKT_LEN = ETH_HDR_LEN + NMRP_HDR_LEN"
definition ETH_P_NMRP :: u16 where "ETH_P_NMRP = 0x0912"
definition IP_LEN :: nat where "IP_LEN = 4"

text \<open>\<^verbatim>\<open>enum nmrp_code\<close>; the code field of a message is one byte.\<close>

definition NMRP_C_NONE :: u8 where "NMRP_C_NONE = 0"
definition NMRP_C_ADVERTISE :: u8 where "NMRP_C_ADVERTISE = 1"
definition NMRP_C_CONF_REQ :: u8 where "NMRP_C_CONF_REQ = 2"
definition NMRP_C_CONF_ACK :: u8 where "NMRP_C_CONF_ACK = 3"
definition NMRP_C_CLOSE_REQ :: u8 where "NMRP_C_CLOSE_REQ = 4"
definition NMRP_C_CLOSE_ACK :: u8 where "NMRP_C_CLOSE_ACK = 5"
definition NMRP_C_KEEP_ALIVE_REQ :: u8 where "NMRP_C_KEEP_ALIVE_REQ = 6"
definition NMRP_C_KEEP_ALIVE_ACK :: u8 where "NMRP_C_KEEP_ALIVE_ACK = 7"
definition NMRP_C_TFTP_UL_REQ :: u8 where "NMRP_C_TFTP_UL_REQ = 16"

text \<open>\<^verbatim>\<open>enum nmrp_opt_type\<close>.\<close>

definition NMRP_O_MAGIC_NO :: u16 where "NMRP_O_MAGIC_NO = 0x0001"
definition NMRP_O_DEV_IP :: u16 where "NMRP_O_DEV_IP = 0x0002"
definition NMRP_O_DEV_REGION :: u16 where "NMRP_O_DEV_REGION = 0x0004"
definition NMRP_O_FW_UP :: u16 where "NMRP_O_FW_UP = 0x0101"
definition NMRP_O_ST_UP :: u16 where "NMRP_O_ST_UP = 0x0102"
definition NMRP_O_FILE_NAME :: u16 where "NMRP_O_FILE_NAME = 0x0181"

text \<open>
  \<^verbatim>\<open>struct nmrp_opt\<close> is packed: type (2 bytes), len (2 bytes) and an 8-byte union
  \<^verbatim>\<open>val\<close> (\<^verbatim>\<open>magic[4]\<close> or \<^verbatim>\<open>ip.addr[4]\<close>, \<^verbatim>\<open>ip.mask[4]\<close>), 12 bytes in all.
  \<^verbatim>\<open>struct nmrp_msg\<close> is packed: reserved, code, id, len (6 bytes), the array
  \<^verbatim>\<open>opts[2]\<close> (24 bytes) and \<^verbatim>\<open>num_opts\<close> (4 bytes), 34 bytes in all. The array is
  a list; an index at or beyond its length is outside the array.
\<close>

record nmrp_opt =
  o_type :: u16
  o_len :: u16
  o_val :: "u8 list"

record nmrp_msg =
  m_reserved :: u16
  m_code :: u8
  m_id :: u8
  m_len :: u16
  m_opts :: "nmrp_opt list"
  m_num_opts :: u32

definition SIZEOF_NMRP_OPT :: nat where "SIZEOF_NMRP_OPT = 12"
definition NMRP_MAX_OPTS :: nat where "NMRP_MAX_OPTS = 2"
definition SIZEOF_NMRP_MSG :: nat where
  "SIZEOF_NMRP_MSG = NMRP_HDR_LEN + NMRP_MAX_OPTS * SIZEOF_NMRP_OPT + 4"

subsection \<open>Byte order\<close>

text \<open>
  \<^verbatim>\<open>htons\<close> and \<^verbatim>\<open>ntohs\<close> on a little-endian host (the x86 Linux machine the
  program is written for): both exchange the two bytes of a 16-bit value.
\<close>

definition htons :: "u16 \<Rightarrow> u16" where
  "htons x = push_bit 8 x OR drop_bit 8 x"

definition ntohs :: "u16 \<Rightarrow> u16" where
  "ntohs x = push_bit 8 x OR drop_bit 8 x"

subsection \<open>msg_update_len\<close>

text \<open>
  \<^verbatim>\<open>for (; i != msg->num_opts; ++i) msg->len += msg->opts[i].len;\<close>
  The addition is on \<^verbatim>\<open>uint16_t\<close> and wraps. Reading \<^verbatim>\<open>opts[i]\<close> outside the array
  is undefined in C: the model returns \<open>None\<close>.
\<close>

function msg_update_len_loop :: "nmrp_msg \<Rightarrow> nat \<Rightarrow> nmrp_msg option" where
  "msg_update_len_loop msg i =
     (if i \<noteq> unat (m_num_opts msg) then
        (if i < length (m_opts msg) then
           msg_update_len_loop (msg\<lparr>m_len := m_len msg + o_len (m_opts msg ! i)\<rparr>) (i + 1)
         else None)
      else Some msg)"
  by pat_completeness auto
termination
  by (relation "measure (\<lambda>(msg, i). length (m_opts msg) - i)") auto

declare msg_update_len_loop.simps [simp del]

definition msg_update_len :: "nmrp_msg \<Rightarrow> nmrp_msg option" where
  "msg_update_len msg = msg_update_len_loop (msg\<lparr>m_len := of_nat NMRP_HDR_LEN\<rparr>) 0"

subsection \<open>msg_hton\<close>

definition hton_opt :: "nmrp_opt \<Rightarrow> nmrp_opt" where
  "hton_opt opt = opt\<lparr>o_len := htons (o_len opt), o_type := htons (o_type opt)\<rparr>"

function msg_hton_loop :: "nmrp_msg \<Rightarrow> nat \<Rightarrow> nmrp_msg option" where
  "msg_hton_loop msg i =
     (if i \<noteq> unat (m_num_opts msg) then
        (if i < length (m_opts msg) then
           msg_hton_loop (msg\<lparr>m_opts := (m_opts msg)[i := hton_opt (m_opts msg ! i)]\<rparr>) (i + 1)
         else None)
      else Some msg)"
  by pat_completeness auto
termination
  by (relation "measure (\<lambda>(msg, i). length (m_opts msg) - i)") auto

declare msg_hton_loop.simps [simp del]

definition msg_hton :: "nmrp_msg \<Rightarrow> nmrp_msg option" where
  "msg_hton msg =
     msg_hton_loop (msg\<lparr>m_reserved := htons (m_reserved msg), m_len := htons (m_len msg)\<rparr>) 0"

subsection \<open>msg_hdr_ntoh and msg_ntoh\<close>

definition msg_hdr_ntoh :: "nmrp_msg \<Rightarrow> nmrp_msg" where
  "msg_hdr_ntoh msg = msg\<lparr>m_reserved := ntohs (m_reserved msg), m_len := ntohs (m_len msg)\<rparr>"

text \<open>
  The outcomes of \<^verbatim>\<open>msg_ntoh\<close>. It returns 0 on success and 1 on both failures, which
  differ in the diagnostic they print: "Malformed message." when fewer than
  \<^verbatim>\<open>NMRP_OPT_LEN\<close> bytes remain (\<open>TooShort\<close>) and "Trailing data in message." when
  the remainder is not zero after the loop (\<open>Trailing\<close>). \<open>OutOfBounds\<close> is the loop
  dereferencing \<^verbatim>\<open>opt\<close> after \<^verbatim>\<open>++opt\<close> has left the array \<^verbatim>\<open>opts[2]\<close>, which
  is undefined in C.
\<close>

datatype ntoh_result = NtohOk | TooShort | Trailing | OutOfBounds

fun ntoh_ret :: "ntoh_result \<Rightarrow> int option" where
  "ntoh_ret NtohOk = Some 0"
| "ntoh_ret TooShort = Some 1"
| "ntoh_ret Trailing = Some 1"
| "ntoh_ret OutOfBounds = None"

definition ntoh_opt :: "nmrp_opt \<Rightarrow> nmrp_opt" where
  "ntoh_opt opt = opt\<lparr>o_type := ntohs (o_type opt), o_len := ntohs (o_len opt)\<rparr>"

text \<open>
  The loop of \<^verbatim>\<open>msg_ntoh\<close>. The pointer \<^verbatim>\<open>opt\<close> is the index \<open>k\<close> of the array
  element it points to: \<^verbatim>\<open>++opt\<close> moves it by one element, that is by
  \<^verbatim>\<open>sizeof(struct nmrp_opt)\<close> bytes, whatever the option's declared length.
  \<^verbatim>\<open>remaining\<close> is a C \<^verbatim>\<open>int\<close>; it stays between \<open>-65535\<close> and \<open>65535\<close>.
\<close>

function msg_ntoh_loop :: "nmrp_msg \<Rightarrow> int \<Rightarrow> nat \<Rightarrow> ntoh_result \<times> nmrp_msg" where
  "msg_ntoh_loop msg remaining k =
     (if remaining > 0 then
        (if remaining < int NMRP_OPT_LEN then (TooShort, msg)
         else if k < length (m_opts msg) then
           (let opt = ntoh_opt (m_opts msg ! k)
            in msg_ntoh_loop (msg\<lparr>m_opts := (m_opts msg)[k := opt]\<rparr>)
                 (remaining - uint (o_len opt)) (k + 1))
         else (OutOfBounds, msg))
      else if remaining \<noteq> 0 then (Trailing, msg)
      else (NtohOk, msg))"
  by pat_completeness auto
termination
  by (relation "measure (\<lambda>(msg, remaining, k). length (m_opts msg) - k)") auto

declare msg_ntoh_loop.simps [simp del]

definition msg_ntoh :: "nmrp_msg \<Rightarrow> ntoh_result \<times> nmrp_msg" where
  "msg_ntoh msg =
     (let msg' = msg_hdr_ntoh msg
      in msg_ntoh_loop msg' (uint (m_len msg') - int NMRP_HDR_LEN) 0)"

subsection \<open>Auxiliary notions for the statements\<close>

text \<open>
  \<open>upd_range f i n xs\<close> applies \<open>f\<close> to the elements of \<open>xs\<close> at the indices from \<open>i\<close>
  up to but excluding \<open>n\<close>: what a loop \<^verbatim>\<open>for (; i != n; ++i) xs[i] = f(xs[i])\<close> leaves.
\<close>

definition upd_range :: "('a \<Rightarrow> 'a) \<Rightarrow> nat \<Rightarrow> nat \<Rightarrow> 'a list \<Rightarrow> 'a list" where
  "upd_range f i n xs = map (\<lambda>j. if i \<le> j \<and> j < n then f (xs ! j) else xs ! j) [0..<length xs]"

text \<open>
  The configure-ack message \<^verbatim>\<open>nmrp_do\<close> builds (host byte order, length already
  computed), offering 192.168.1.2 with mask 255.255.255.0.
\<close>

definition conf_ack_example :: nmrp_msg where
  "conf_ack_example =
     \<lparr>m_reserved = 0, m_code = NMRP_C_CONF_ACK, m_id = 0, m_len = 22,
      m_opts = [\<lparr>o_type = NMRP_O_DEV_IP, o_len = 12, o_val = [192, 168, 1, 2, 255, 255, 255, 0]\<rparr>,
                \<lparr>o_type = NMRP_O_FW_UP, o_len = 4, o_val = [0, 0, 0, 0, 0, 0, 0, 0]\<rparr>],
      m_num_opts = 2\<rparr>"

text \<open>
  The walk of \<^verbatim>\<open>msg_ntoh\<close> over a received message (all fields still in network
  byte order), as the code makes it: \<open>declared_len msg j\<close> is the length field the
  loop reads in entry \<open>j\<close> of the array, that is at offset 6 + 12 \<open>j\<close> of the message
  (the declared length of the \<open>j\<close>-th option of the message only when every earlier
  option is 12 bytes long); \<open>remainder msg k\<close> is the value of \<^verbatim>\<open>remaining\<close> when the
  loop arrives at entry \<open>k\<close>; and \<open>reaches msg k\<close> says that it does arrive there
  inside the array: every earlier entry was read with at least \<^verbatim>\<open>NMRP_OPT_LEN\<close>
  bytes remaining.
\<close>

definition declared_len :: "nmrp_msg \<Rightarrow> nat \<Rightarrow> int" where
  "declared_len msg j = uint (ntohs (o_len (m_opts msg ! j)))"

definition remainder :: "nmrp_msg \<Rightarrow> nat \<Rightarrow> int" where
  "remainder msg k =
     uint (ntohs (m_len msg)) - int NMRP_HDR_LEN - (\<Sum>j<k. declared_len msg j)"

definition reaches :: "nmrp_msg \<Rightarrow> nat \<Rightarrow> bool" where
  "reaches msg k \<longleftrightarrow>
     k \<le> length (m_opts msg) \<and> list_all (\<lambda>j. int NMRP_OPT_LEN \<le> remainder msg j) [0..<k]"

text \<open>The outcome of \<^verbatim>\<open>msg_ntoh\<close> when the loop ends with remainder \<open>r\<close>.\<close>

definition classify :: "int \<Rightarrow> ntoh_result" where
  "classify r = (if 0 < r then TooShort else if r \<noteq> 0 then Trailing else NtohOk)"

subsection \<open>Packets in memory\<close>

text \<open>
  \<^verbatim>\<open>struct ether_header\<close> (destination, source, Ethertype: 14 bytes) and the packed
  \<^verbatim>\<open>struct nmrp_pkt\<close>, 48 bytes in all.
\<close>

record ether_header =
  eh_dhost :: "u8 list"
  eh_shost :: "u8 list"
  eh_type :: u16

record nmrp_pkt =
  p_eh :: ether_header
  p_msg :: nmrp_msg

definition SIZEOF_NMRP_PKT :: nat where
  "SIZEOF_NMRP_PKT = ETH_HDR_LEN + SIZEOF_NMRP_MSG"

text \<open>
  \<^verbatim>\<open>recvfrom\<close> copies the bytes of a frame over the struct. \<open>host16\<close> and
  \<open>host32\<close> are the values the little-endian host reads from a \<^verbatim>\<open>uint16_t\<close> or
  \<^verbatim>\<open>uint32_t\<close> field at a byte offset; \<open>net16\<close> is the 16-bit value the same two bytes
  hold in network order. \<open>pkt_of_bytes\<close> reads the fields of a \<^verbatim>\<open>struct nmrp_pkt\<close>
  from its 48 bytes, following the packed layout: option \<open>k\<close> of the array lies at
  offset \<^verbatim>\<open>NMRP_HDR_LEN\<close> + 12 \<open>k\<close> of the message.
\<close>

definition host16 :: "u8 list \<Rightarrow> nat \<Rightarrow> u16" where
  "host16 bs off = ucast (bs ! off) OR push_bit 8 (ucast (bs ! (off + 1)))"

definition net16 :: "u8 list \<Rightarrow> nat \<Rightarrow> u16" where
  "net16 bs off = push_bit 8 (ucast (bs ! off)) OR ucast (bs ! (off + 1))"

definition host32 :: "u8 list \<Rightarrow> nat \<Rightarrow> u32" where
  "host32 bs off =
     ucast (bs ! off) OR push_bit 8 (ucast (bs ! (off + 1))) OR
     push_bit 16 (ucast (bs ! (off + 2))) OR push_bit 24 (ucast (bs ! (off + 3)))"

definition opt_of_bytes :: "u8 list \<Rightarrow> nat \<Rightarrow> nmrp_opt" where
  "opt_of_bytes bs off =
     \<lparr>o_type = host16 bs off, o_len = host16 bs (off + 2), o_val = take 8 (drop (off + 4) bs)\<rparr>"

definition msg_of_bytes :: "u8 list \<Rightarrow> nat \<Rightarrow> nmrp_msg" where
  "msg_of_bytes bs off =
     \<lparr>m_reserved = host16 bs off, m_code = bs ! (off + 2), m_id = bs ! (off + 3),
      m_len = host16 bs (off + 4),
      m_opts = map (\<lambda>k. opt_of_bytes bs (off + NMRP_HDR_LEN + k * SIZEOF_NMRP_OPT))
                 [0..<NMRP_MAX_OPTS],
      m_num_opts = host32 bs (off + NMRP_HDR_LEN + NMRP_MAX_OPTS * SIZEOF_NMRP_OPT)\<rparr>"

definition pkt_of_bytes :: "u8 list \<Rightarrow> nmrp_pkt" where
  "pkt_of_bytes bs =
     \<lparr>p_eh = \<lparr>eh_dhost = take 6 bs, eh_shost = take 6 (drop 6 bs), eh_type = host16 bs 12\<rparr>,
      p_msg = msg_of_bytes bs ETH_HDR_LEN\<rparr>"

text \<open>
  A message that arrived as the bytes \<open>bs\<close> (34 at most), as \<^verbatim>\<open>pkt_recv\<close> leaves it
  in the zeroed struct before \<^verbatim>\<open>msg_ntoh\<close> runs.
\<close>

definition msg_in_memory :: "u8 list \<Rightarrow> nmrp_msg" where
  "msg_in_memory bs = msg_of_bytes (bs @ replicate (SIZEOF_NMRP_MSG - length bs) 0) 0"

text \<open>\<^verbatim>\<open>msg_hdr_ntoh\<close> on the bytes of a packet: the host exchanges the two bytes of
  \<^verbatim>\<open>reserved\<close> (offset 14) and of \<^verbatim>\<open>len\<close> (offset 18).\<close>

definition swap16_at :: "u8 list \<Rightarrow> nat \<Rightarrow> u8 list" where
  "swap16_at bs off = bs[off := bs ! (off + 1), off + 1 := bs ! off]"

definition pkt_hdr_ntoh_bytes :: "u8 list \<Rightarrow> u8 list" where
  "pkt_hdr_ntoh_bytes bs = swap16_at (swap16_at bs ETH_HDR_LEN) (ETH_HDR_LEN + 4)"

subsection \<open>The socket and pkt_recv\<close>

text \<open>
  The raw socket is the queue of what its next receive calls meet: a frame, a receive
  timeout (\<^verbatim>\<open>EAGAIN\<close>) or another error. An empty queue is a network on which nothing
  arrives any more: the receive times out. \<^verbatim>\<open>recvfrom\<close> copies at most \<open>len\<close> bytes
  of the frame at the head over the start of the buffer and returns their number; with
  \<^verbatim>\<open>MSG_PEEK\<close> the frame stays queued, otherwise it is removed (what did not fit is
  dropped). \<open>Overflow\<close> is a copy that would run past the 48-byte struct.
\<close>

datatype sock_event = Frame "u8 list" | Eagain | Eother

datatype recv_ret = Bytes nat | Fail_EAGAIN | Fail_other | Overflow

fun recvfrom :: "sock_event list \<Rightarrow> u8 list \<Rightarrow> nat \<Rightarrow> bool \<Rightarrow> recv_ret \<times> u8 list \<times> sock_event list" where
  "recvfrom [] buf len peek = (Fail_EAGAIN, buf, [])"
| "recvfrom (Eagain # q) buf len peek = (Fail_EAGAIN, buf, q)"
| "recvfrom (Eother # q) buf len peek = (Fail_other, buf, q)"
| "recvfrom (Frame f # q) buf len peek =
     (let n = min len (length f); sock' = (if peek then Frame f # q else q)
      in if length buf < n then (Overflow, buf, sock')
         else (Bytes n, take n f @ drop n buf, sock'))"

text \<open>
  \<^verbatim>\<open>pkt_recv\<close> returns 0 (a message, left in \<^verbatim>\<open>*pkt\<close>), 1 (error), 2 (timeout) or 3
  (not an NMRP frame); \<open>None\<close> stands for undefined behaviour (a copy past the struct, or
  \<^verbatim>\<open>msg_ntoh\<close> leaving the option array). The result carries the struct as the call
  leaves it and the socket.
\<close>

definition pkt_recv :: "sock_event list \<Rightarrow> int option \<times> nmrp_pkt \<times> sock_event list" where
  "pkt_recv sock =
     (case recvfrom sock (replicate SIZEOF_NMRP_PKT 0) NMRP_MIN_PKT_LEN True of
        (Fail_EAGAIN, buf, sock1) \<Rightarrow> (Some 2, pkt_of_bytes buf, sock1)
      | (Fail_other, buf, sock1) \<Rightarrow> (Some 1, pkt_of_bytes buf, sock1)
      | (Overflow, buf, sock1) \<Rightarrow> (None, pkt_of_bytes buf, sock1)
      | (Bytes bytes, buf, sock1) \<Rightarrow>
          if ntohs (eh_type (p_eh (pkt_of_bytes buf))) \<noteq> ETH_P_NMRP then
            (Some 3, pkt_of_bytes buf, sock1)
          else if bytes < NMRP_MIN_PKT_LEN then (Some 1, pkt_of_bytes buf, sock1)
          else
            (let buf' = pkt_hdr_ntoh_bytes buf;
                 len = unat (m_len (p_msg (pkt_of_bytes buf'))) + ETH_HDR_LEN
             in case recvfrom sock1 buf' len False of
                  (Bytes bytes2, buf2, sock2) \<Rightarrow>
                    if bytes2 \<noteq> len then (Some 1, pkt_of_bytes buf2, sock2)
                    else
                      (case msg_ntoh (p_msg (pkt_of_bytes buf2)) of
                         (NtohOk, msg) \<Rightarrow> (Some 0, (pkt_of_bytes buf2)\<lparr>p_msg := msg\<rparr>, sock2)
                       | (OutOfBounds, msg) \<Rightarrow> (None, (pkt_of_bytes buf2)\<lparr>p_msg := msg\<rparr>, sock2)
                       | (_, msg) \<Rightarrow> (Some 1, (pkt_of_bytes buf2)\<lparr>p_msg := msg\<rparr>, sock2))
                | (Overflow, buf2, sock2) \<Rightarrow> (None, pkt_of_bytes buf2, sock2)
                | (_, buf2, sock2) \<Rightarrow> (Some 1, pkt_of_bytes buf2, sock2)))"

subsection \<open>The world around nmrp_do\<close>

text \<open>
  \<^verbatim>\<open>nmrp_do\<close> talks to the operating system and to the device. The model takes what
  these answer as a script: whether \<^verbatim>\<open>socket\<close>, \<^verbatim>\<open>intf_get_info\<close> (with the local
  hardware address), \<^verbatim>\<open>sock_bind_to_intf\<close> and the first \<^verbatim>\<open>sock_set_rx_timeout\<close>
  succeed, whether the \<open>n\<close>-th \<^verbatim>\<open>pkt_send\<close> succeeds, what the \<open>n\<close>-th call of
  \<^verbatim>\<open>time\<close> and of the transfer (\<^verbatim>\<open>tftp_put\<close> or \<^verbatim>\<open>system\<close>) return, and what the
  successive calls of \<^verbatim>\<open>pkt_recv\<close> return: 0 with the packet left in \<^verbatim>\<open>rx\<close>, 1
  (error), 2 (timeout) or 3 (wrong protocol). \<open>w_stack\<close> is the indeterminate initial
  content of the local \<^verbatim>\<open>tx\<close> and \<^verbatim>\<open>rx\<close>. Console output is not modelled.
\<close>

datatype recv_result = Received nmrp_pkt | RecvError | RecvTimeout | RecvWrongProto

fun recv_err :: "recv_result \<Rightarrow> int" where
  "recv_err (Received p) = 0"
| "recv_err RecvError = 1"
| "recv_err RecvTimeout = 2"
| "recv_err RecvWrongProto = 3"

record world =
  w_socket_ok :: bool
  w_intf_info :: "u8 list option"
  w_bind_ok :: bool
  w_timeout_ok :: bool
  w_send_ok :: "nat \<Rightarrow> bool"
  w_time :: "nat \<Rightarrow> int"
  w_transfer :: "nat \<Rightarrow> int"
  w_recv :: "recv_result list"
  w_stack :: nmrp_pkt

text \<open>
  \<^verbatim>\<open>struct nmrpd_args\<close> as \<^verbatim>\<open>nmrp_do\<close> uses it: whether \<^verbatim>\<open>op\<close> is
  \<^verbatim>\<open>NMRP_UPLOAD_FW\<close>, the results of \<^verbatim>\<open>mac_parse\<close> and of the two \<^verbatim>\<open>inet_aton\<close>
  calls (\<open>None\<close> when the text does not parse), whether \<^verbatim>\<open>access\<close> finds the file
  readable, whether \<^verbatim>\<open>tftpcmd\<close> is set, and the two timeouts.
\<close>

record nmrpd_args =
  a_op_upload :: bool
  a_mac :: "u8 list option"
  a_ipaddr :: "u8 list option"
  a_ipmask :: "u8 list option"
  a_file_ok :: bool
  a_tftpcmd :: bool
  a_rx_timeout :: nat
  a_ul_timeout :: nat

text \<open>
  What \<^verbatim>\<open>nmrp_do\<close> does to the world, in order: the socket it opens, every frame it
  sends (destination \<^verbatim>\<open>addr.sll_addr\<close>, the byte count \<^verbatim>\<open>pkt_send\<close> computes, the
  packet), every transfer it starts, every receive timeout it sets, and the socket it
  closes.
\<close>

datatype action =
    Socket
  | Send "u8 list" nat nmrp_pkt
  | Transfer
  | SetRxTimeout nat
  | Close

text \<open>
  The locals of \<^verbatim>\<open>nmrp_do\<close>, with the number of \<^verbatim>\<open>pkt_send\<close>, \<^verbatim>\<open>time\<close> and
  transfer calls made so far and the actions so far.
\<close>

record state =
  s_tx :: nmrp_pkt
  s_rx :: nmrp_pkt
  s_addr :: "u8 list"
  s_src :: "u8 list"
  s_dest :: "u8 list"
  s_ipaddr :: "u8 list"
  s_ipmask :: "u8 list"
  s_beg :: int
  s_err :: int
  s_ulreqs :: int
  s_expect :: u8
  s_nsend :: nat
  s_ntime :: nat
  s_nxfer :: nat
  s_trace :: "action list"

text \<open>
  How a stretch of \<^verbatim>\<open>nmrp_do\<close> ends: it goes on (\<open>Continue\<close>), leaves the loop with
  \<^verbatim>\<open>break\<close>, jumps to the label \<^verbatim>\<open>out\<close>, or has undefined behaviour. \<^verbatim>\<open>nmrp_do\<close>
  as a whole returns a value, or is still waiting in \<^verbatim>\<open>pkt_recv\<close> when the script
  of received results ends (\<open>Blocked\<close>).
\<close>

datatype 'a flow = Continue 'a | Break 'a | Goto_out 'a | Undefined_behaviour

datatype outcome = Returned int | Blocked | Undefined

subsection \<open>pkt_send and the label out\<close>

definition pkt_send :: "world \<Rightarrow> state \<Rightarrow> bool \<times> state" where
  "pkt_send w s =
     (let len = unat (ntohs (m_len (p_msg (s_tx s)))) + ETH_HDR_LEN
      in (w_send_ok w (s_nsend s),
          s\<lparr>s_nsend := s_nsend s + 1, s_trace := s_trace s @ [Send (s_addr s) len (s_tx s)]\<rparr>))"

text \<open>\<^verbatim>\<open>out: close(sock); return err;\<close>\<close>

definition out :: "state \<Rightarrow> outcome \<times> action list" where
  "out s = (Returned (s_err s), s_trace s @ [Close])"

subsection \<open>The advertising loop\<close>

text \<open>
  One round sends \<^verbatim>\<open>tx\<close> and calls \<^verbatim>\<open>pkt_recv\<close>. After a failed \<^verbatim>\<open>pkt_recv\<close> the
  content of \<^verbatim>\<open>rx\<close> is never read, so the model leaves it as it was.
\<close>

fun advertise :: "world \<Rightarrow> state \<Rightarrow> recv_result list \<Rightarrow> state flow \<times> recv_result list" where
  "advertise w s rs =
     (case pkt_send w s of
        (False, s1) \<Rightarrow> (Goto_out s1, rs)
      | (True, s1) \<Rightarrow>
          (case rs of
             [] \<Rightarrow> (Continue s1, [])
           | r # rs' \<Rightarrow>
               (let s2 = s1\<lparr>s_err := recv_err r,
                           s_rx := (case r of Received p \<Rightarrow> p | _ \<Rightarrow> s_rx s1)\<rparr>
                in if s_err s2 = 0 \<and> eh_dhost (p_eh (s_rx s2)) = s_src s2 then (Break s2, rs')
                   else if s_err s2 = 1 then (Goto_out s2, rs')
                   else
                     (let now = w_time w (s_ntime s2);
                          s3 = s2\<lparr>s_ntime := s_ntime s2 + 1\<rparr>
                      in if now - s_beg s3 \<ge> 60 then (Goto_out s3, rs')
                         else advertise w s3 rs'))))"

declare advertise.simps [simp del]

subsection \<open>The handshake loop\<close>

text \<open>Lines 389 to 395: the reply is cleared, \<^verbatim>\<open>err = 1\<close>.\<close>

definition reset_tx :: "state \<Rightarrow> state" where
  "reset_tx s =
     s\<lparr>s_tx := (s_tx s)\<lparr>p_msg := (p_msg (s_tx s))
            \<lparr>m_code := NMRP_C_NONE, m_reserved := 0, m_id := 0, m_num_opts := 0, m_len := 0\<rparr>\<rparr>,
       s_err := 1\<rparr>"

definition set_tx_code :: "u8 \<Rightarrow> state \<Rightarrow> state" where
  "set_tx_code c s = s\<lparr>s_tx := (s_tx s)\<lparr>p_msg := (p_msg (s_tx s))\<lparr>m_code := c\<rparr>\<rparr>\<rparr>"

text \<open>The case \<^verbatim>\<open>NMRP_C_CONF_REQ\<close>: the configure-ack and the peer's address.\<close>

definition conf_req :: "state \<Rightarrow> state" where
  "conf_req s =
     (let msg = p_msg (s_tx s);
          opts = m_opts msg;
          opts' = opts[0 := \<lparr>o_type = NMRP_O_DEV_IP, o_len = of_nat (NMRP_OPT_LEN + 2 * IP_LEN),
                            o_val = s_ipaddr s @ s_ipmask s\<rparr>,
                       1 := (opts ! 1)\<lparr>o_type := NMRP_O_FW_UP, o_len := of_nat NMRP_OPT_LEN\<rparr>];
          peer = eh_shost (p_eh (s_rx s))
      in s\<lparr>s_tx := \<lparr>p_eh = (p_eh (s_tx s))\<lparr>eh_dhost := peer\<rparr>,
                     p_msg = msg\<lparr>m_code := NMRP_C_CONF_ACK, m_num_opts := 2, m_opts := opts'\<rparr>\<rparr>,
           s_expect := NMRP_C_TFTP_UL_REQ,
           s_addr := peer\<rparr>)"

text \<open>
  The case \<^verbatim>\<open>NMRP_C_TFTP_UL_REQ\<close>. \<^verbatim>\<open>ulreqs\<close> is a C \<^verbatim>\<open>int\<close> counting received
  messages; it is modelled without wrap-around. The transfer is \<^verbatim>\<open>tftp_put\<close> or,
  when \<^verbatim>\<open>tftpcmd\<close> is set, \<^verbatim>\<open>system\<close>; either way \<^verbatim>\<open>err\<close> receives the next
  answer of \<open>w_transfer\<close>. The return value of \<^verbatim>\<open>sock_set_rx_timeout\<close> is ignored
  here, as in the loop.
\<close>

definition tftp_ul_req :: "world \<Rightarrow> nmrpd_args \<Rightarrow> state \<Rightarrow> state flow" where
  "tftp_ul_req w args s =
     (let s1 = s\<lparr>s_ulreqs := s_ulreqs s + 1\<rparr>
      in if s_ulreqs s1 > 5 then Continue (set_tx_code NMRP_C_CLOSE_REQ s1)
         else
           (let s2 = s1\<lparr>s_err := w_transfer w (s_nxfer s1), s_nxfer := s_nxfer s1 + 1,
                       s_trace := s_trace s1 @ [Transfer]\<rparr>
            in if s_err s2 = 0 then
                 Continue (s2\<lparr>s_expect := NMRP_C_CLOSE_REQ,
                              s_trace := s_trace s2 @ [SetRxTimeout (a_ul_timeout args)]\<rparr>)
               else Goto_out s2))"

text \<open>The \<^verbatim>\<open>switch (rx.msg.code)\<close>; \<open>Continue\<close> is a \<^verbatim>\<open>break\<close> out of the switch.\<close>

definition dispatch :: "world \<Rightarrow> nmrpd_args \<Rightarrow> state \<Rightarrow> state flow" where
  "dispatch w args s =
     (let code = m_code (p_msg (s_rx s))
      in if code = NMRP_C_ADVERTISE then Goto_out (s\<lparr>s_err := 1\<rparr>)
         else if code = NMRP_C_CONF_REQ then Continue (conf_req s)
         else if code = NMRP_C_TFTP_UL_REQ then tftp_ul_req w args s
         else if code = NMRP_C_KEEP_ALIVE_REQ then Continue (set_tx_code NMRP_C_KEEP_ALIVE_ACK s)
         else if code = NMRP_C_CLOSE_REQ then Continue (set_tx_code NMRP_C_CLOSE_ACK s)
         else if code = NMRP_C_CLOSE_ACK then Goto_out (s\<lparr>s_err := 0\<rparr>)
         else Continue s)"

text \<open>Lines 477 to 485: a reply, if one was chosen, is measured, encoded and sent.\<close>

definition reply :: "world \<Rightarrow> state \<Rightarrow> state flow" where
  "reply w s =
     (if m_code (p_msg (s_tx s)) \<noteq> NMRP_C_NONE then
        (case msg_update_len (p_msg (s_tx s)) of
           None \<Rightarrow> Undefined_behaviour
         | Some m1 \<Rightarrow>
             (case msg_hton m1 of
                None \<Rightarrow> Undefined_behaviour
              | Some m2 \<Rightarrow>
                  (case pkt_send w (s\<lparr>s_tx := (s_tx s)\<lparr>p_msg := m2\<rparr>\<rparr>) of
                     (True, s1) \<Rightarrow> Continue s1
                   | (False, s1) \<Rightarrow> Goto_out s1)))
      else Continue s)"

text \<open>
  The body of the \<^verbatim>\<open>do\<close> loop up to the call of \<^verbatim>\<open>pkt_recv\<close>: \<open>Continue\<close> arrives at
  \<^verbatim>\<open>pkt_recv\<close>, \<open>Break\<close> is the \<^verbatim>\<open>break\<close> after a close-request.
\<close>

definition handle_msg :: "world \<Rightarrow> nmrpd_args \<Rightarrow> state \<Rightarrow> state flow" where
  "handle_msg w args s =
     (case dispatch w args (reset_tx s) of
        Continue s1 \<Rightarrow>
          (case reply w s1 of
             Continue s2 \<Rightarrow>
               if m_code (p_msg (s_rx s2)) = NMRP_C_CLOSE_REQ then Break s2 else Continue s2
           | other \<Rightarrow> other)
      | other \<Rightarrow> other)"

text \<open>
  The \<^verbatim>\<open>do\<close> loop. Each round handles the message in \<^verbatim>\<open>rx\<close> and then takes the next
  result of \<^verbatim>\<open>pkt_recv\<close> from the script; after the loop \<^verbatim>\<open>err = 0\<close>.
\<close>

fun handshake :: "world \<Rightarrow> nmrpd_args \<Rightarrow> state \<Rightarrow> recv_result list \<Rightarrow> outcome \<times> action list" where
  "handshake w args s rs =
     (case handle_msg w args s of
        Goto_out s1 \<Rightarrow> out s1
      | Break s1 \<Rightarrow> out (s1\<lparr>s_err := 0\<rparr>)
      | Undefined_behaviour \<Rightarrow> (Undefined, s_trace s)
      | Continue s1 \<Rightarrow>
          (case rs of
             [] \<Rightarrow> (Blocked, s_trace s1)
           | r # rs' \<Rightarrow>
               (case r of
                  Received p \<Rightarrow>
                    handshake w args
                      (s1\<lparr>s_err := 0, s_rx := p,
                          s_trace := s_trace s1 @ [SetRxTimeout (a_rx_timeout args)]\<rparr>) rs'
                | _ \<Rightarrow> out (s1\<lparr>s_err := recv_err r\<rparr>))))"

declare handshake.simps [simp del]

subsection \<open>nmrp_do\<close>

text \<open>Lines 327 to 348: the advertisement, measured and encoded.\<close>

definition advertise_tx :: "nmrp_pkt \<Rightarrow> u8 list \<Rightarrow> u8 list \<Rightarrow> nmrp_pkt" where
  "advertise_tx stack src dest =
     (let msg = p_msg stack;
          opts = m_opts msg;
          opt0 = \<lparr>o_type = NMRP_O_MAGIC_NO, o_len = of_nat (NMRP_OPT_LEN + 4),
                  o_val = [78, 84, 71, 82] @ drop 4 (o_val (opts ! 0))\<rparr>
      in \<lparr>p_eh = \<lparr>eh_dhost = dest, eh_shost = src, eh_type = htons ETH_P_NMRP\<rparr>,
          p_msg = msg\<lparr>m_reserved := 0, m_code := NMRP_C_ADVERTISE, m_id := 0,
                      m_num_opts := 1, m_opts := opts[0 := opt0]\<rparr>\<rparr>)"

text \<open>
  From the label-free part after the advertising loop to the end: \<^verbatim>\<open>expect\<close> and
  \<^verbatim>\<open>ulreqs\<close> are set and the handshake loop runs.
\<close>

definition start_handshake :: "world \<Rightarrow> nmrpd_args \<Rightarrow> state \<Rightarrow> recv_result list \<Rightarrow> outcome \<times> action list" where
  "start_handshake w args s rs =
     handshake w args (s\<lparr>s_expect := NMRP_C_CONF_REQ, s_ulreqs := 0\<rparr>) rs"

definition nmrp_do :: "world \<Rightarrow> nmrpd_args \<Rightarrow> outcome \<times> action list" where
  "nmrp_do w args =
     (if \<not> a_op_upload args then (Returned 1, [])
      else case a_mac args of
        None \<Rightarrow> (Returned 1, [])
      | Some dest \<Rightarrow>
     (case a_ipaddr args of
        None \<Rightarrow> (Returned 1, [])
      | Some ipaddr \<Rightarrow>
     (case a_ipmask args of
        None \<Rightarrow> (Returned 1, [])
      | Some ipmask \<Rightarrow>
     (if \<not> a_file_ok args then (Returned 1, [])
      else if \<not> w_socket_ok w then (Returned 1, [])
      else case w_intf_info w of
        None \<Rightarrow> (Returned 1, [Socket])
      | Some src \<Rightarrow>
     (if \<not> w_bind_ok w then (Returned 1, [Socket])
      else if \<not> w_timeout_ok w then (Returned 1, [Socket])
      else
        (let tx = advertise_tx (w_stack w) src dest
         in case msg_update_len (p_msg tx) of
              None \<Rightarrow> (Undefined, [Socket, SetRxTimeout (a_rx_timeout args)])
            | Some m1 \<Rightarrow>
           (case msg_hton m1 of
              None \<Rightarrow> (Undefined, [Socket, SetRxTimeout (a_rx_timeout args)])
            | Some m2 \<Rightarrow>
                (let s = \<lparr>s_tx = tx\<lparr>p_msg := m2\<rparr>, s_rx = w_stack w, s_addr = dest,
                          s_src = src, s_dest = dest, s_ipaddr = ipaddr, s_ipmask = ipmask,
                          s_beg = w_time w 0, s_err = 1, s_ulreqs = 0, s_expect = NMRP_C_NONE,
                          s_nsend = 0, s_ntime = 1, s_nxfer = 0,
                          s_trace = [Socket, SetRxTimeout (a_rx_timeout args)]\<rparr>
                 in case advertise w s (w_recv w) of
                      (Break s1, rs) \<Rightarrow> start_handshake w args s1 rs
                    | (Goto_out s1, rs) \<Rightarrow> out s1
                    | (Continue s1, rs) \<Rightarrow> (Blocked, s_trace s1)
                    | (Undefined_behaviour, rs) \<Rightarrow> (Undefined, [])))))))))"

subsection \<open>Example messages\<close>

text \<open>
  Messages as they arrive, byte by byte (header: reserved, code, id, length; then the
  options, each type, length, payload, packed one after the other).
  \<^item> \<open>three_opts_wire\<close>: a configure-request of 18 bytes with three options of 4 bytes.
  \<^item> \<open>zero_len_wire\<close>: 10 bytes, one option header that declares length 0.
  \<^item> \<open>two_opts_wire\<close>: 26 bytes, the magic option (8 bytes, "NTGR") followed by a
    device-IP option (12 bytes: 192.168.0.12, mask 255.255.255.0) at offset 14.
  \<^item> \<open>trailing_wire\<close>: 14 bytes, whose only option declares 12 bytes where 8 remain.
  \<^item> \<open>short_wire\<close>: 8 bytes, 2 bytes where an option header is expected.
  \<^item> \<open>packed_two_opts_wire\<close>: 22 bytes, two options of 8 bytes each, packed one after
    the other: the declared lengths consume the message exactly (6 + 8 + 8 = 22).
  \<^item> \<open>overlong_second_wire\<close>: 26 bytes, the magic option (8 bytes) followed by an
    option at offset 14 that declares 16 bytes where 12 remain.
\<close>

definition three_opts_wire :: "u8 list" where
  "three_opts_wire = [0, 0, 2, 0, 0, 18, 1, 1, 0, 4, 1, 2, 0, 4, 1, 2, 0, 4]"

definition zero_len_wire :: "u8 list" where
  "zero_len_wire = [0, 0, 2, 0, 0, 10, 0, 1, 0, 0]"

definition two_opts_wire :: "u8 list" where
  "two_opts_wire = [0, 0, 2, 0, 0, 26, 0, 1, 0, 8, 78, 84, 71, 82,
                    0, 2, 0, 12, 192, 168, 0, 12, 255, 255, 255, 0]"

definition trailing_wire :: "u8 list" where
  "trailing_wire = [0, 0, 2, 0, 0, 14, 0, 2, 0, 12, 192, 168, 0, 12]"

definition short_wire :: "u8 list" where
  "short_wire = [0, 0, 2, 0, 0, 8, 0, 1]"

definition packed_two_opts_wire :: "u8 list" where
  "packed_two_opts_wire = [0, 0, 2, 0, 0, 22, 0, 1, 0, 8, 78, 84, 71, 82,
                           0, 4, 0, 8, 1, 2, 0, 9]"

definition overlong_second_wire :: "u8 list" where
  "overlong_second_wire = [0, 0, 2, 0, 0, 26, 0, 1, 0, 8, 78, 84, 71, 82,
                           0, 2, 0, 16, 192, 168, 0, 12, 255, 255, 255, 0]"

text \<open>
  Frames. \<open>ipv4_frame\<close> is a minimum-size Ethernet frame of Ethertype 0x0800;
  \<open>nmrp_frame msg\<close> carries the message \<open>msg\<close> from 00:11:22:33:44:55 to
  02:00:00:00:00:01 with Ethertype 0x0912; \<open>conf_req_frame\<close> is such a frame with a
  configure-request of length 6.
\<close>

definition ipv4_frame :: "u8 list" where
  "ipv4_frame =
     [2, 0, 0, 0, 0, 1, 0, 17, 34, 51, 68, 85, 8, 0] @ replicate 46 0"

definition nmrp_frame :: "u8 list \<Rightarrow> u8 list" where
  "nmrp_frame msg = [2, 0, 0, 0, 0, 1, 0, 17, 34, 51, 68, 85, 9, 18] @ msg"

definition conf_req_frame :: "u8 list" where
  "conf_req_frame =
     [2, 0, 0, 0, 0, 1, 0, 17, 34, 51, 68, 85, 9, 18, 0, 0, 2, 0, 0, 6]"

text \<open>
  A session: the local interface has address 02:00:00:00:00:01, the device
  00:11:22:33:44:55. \<open>rx_pkt dhost shost c\<close> is a received message of code \<open>c\<close>
  without options, as \<^verbatim>\<open>pkt_recv\<close> leaves it in \<^verbatim>\<open>rx\<close>. \<open>world_of rs\<close> is a world
  in which every system call succeeds, every transfer succeeds, the clock stands still
  and \<^verbatim>\<open>pkt_recv\<close> returns the results \<open>rs\<close>.
\<close>

definition local_mac :: "u8 list" where "local_mac = [2, 0, 0, 0, 0, 1]"
definition device_mac :: "u8 list" where "device_mac = [0, 17, 34, 51, 68, 85]"

definition zero_opt :: nmrp_opt where
  "zero_opt = \<lparr>o_type = 0, o_len = 0, o_val = [0, 0, 0, 0, 0, 0, 0, 0]\<rparr>"

definition rx_pkt :: "u8 list \<Rightarrow> u8 list \<Rightarrow> u8 \<Rightarrow> nmrp_pkt" where
  "rx_pkt dhost shost c =
     \<lparr>p_eh = \<lparr>eh_dhost = dhost, eh_shost = shost, eh_type = htons ETH_P_NMRP\<rparr>,
      p_msg = \<lparr>m_reserved = 0, m_code = c, m_id = 0, m_len = 6,
               m_opts = [zero_opt, zero_opt], m_num_opts = 0\<rparr>\<rparr>"

definition from_device :: "u8 \<Rightarrow> recv_result" where
  "from_device c = Received (rx_pkt local_mac device_mac c)"

definition args_ok :: nmrpd_args where
  "args_ok =
     \<lparr>a_op_upload = True, a_mac = Some device_mac, a_ipaddr = Some [192, 168, 1, 2],
      a_ipmask = Some [255, 255, 255, 0], a_file_ok = True, a_tftpcmd = False,
      a_rx_timeout = 1, a_ul_timeout = 120\<rparr>"

definition world_of :: "recv_result list \<Rightarrow> world" where
  "world_of rs =
     \<lparr>w_socket_ok = True, w_intf_info = Some local_mac, w_bind_ok = True, w_timeout_ok = True,
      w_send_ok = (\<lambda>n. True), w_time = (\<lambda>n. 0), w_transfer = (\<lambda>n. 0), w_recv = rs,
      w_stack = rx_pkt [0, 0, 0, 0, 0, 0] [0, 0, 0, 0, 0, 0] 0\<rparr>"

text \<open>What a trace shows: the codes of the messages sent, the transfers, the closes.\<close>

fun sent_codes :: "action list \<Rightarrow> u8 list" where
  "sent_codes [] = []"
| "sent_codes (Send a n p # tr) = m_code (p_msg p) # sent_codes tr"
| "sent_codes (_ # tr) = sent_codes tr"

definition transfers :: "action list \<Rightarrow> nat" where
  "transfers tr = length (filter (\<lambda>a. a = Transfer) tr)"

definition closes :: "action list \<Rightarrow> nat" where
  "closes tr = length (filter (\<lambda>a. a = Close) tr)"

text \<open>
  Scripts of received results.
  \<^item> \<open>happy_path\<close>: configure-request, upload-request, close-request.
  \<^item> \<open>six_upload_requests\<close>: configure-request, six upload-requests, and then the
    close-ack with which the device answers the close-request.
  \<^item> \<open>overheard\<close>: one NMRP message addressed to the device, not to the local
    interface: the advertisement \<^verbatim>\<open>nmrp_do\<close> itself sends, as \<^verbatim>\<open>pkt_recv\<close> returns it
    from the frame \<open>advertisement_frame\<close> (a packet socket also receives the frames
    its own host sends).
\<close>

definition advertisement_frame :: "u8 list" where
  "advertisement_frame =
     [0, 17, 34, 51, 68, 85, 2, 0, 0, 0, 0, 1, 9, 18,
      0, 0, 1, 0, 0, 14, 0, 1, 0, 8, 78, 84, 71, 82]"

definition own_advertisement :: nmrp_pkt where
  "own_advertisement =
     \<lparr>p_eh = \<lparr>eh_dhost = device_mac, eh_shost = local_mac, eh_type = htons ETH_P_NMRP\<rparr>,
      p_msg = \<lparr>m_reserved = 0, m_code = NMRP_C_ADVERTISE, m_id = 0, m_len = 14,
               m_opts = [\<lparr>o_type = NMRP_O_MAGIC_NO, o_len = 8,
                          o_val = [78, 84, 71, 82, 0, 0, 0, 0]\<rparr>, zero_opt],
               m_num_opts = 0\<rparr>\<rparr>"

definition happy_path :: "recv_result list" where
  "happy_path =
     [from_device NMRP_C_CONF_REQ, from_device NMRP_C_TFTP_UL_REQ, from_device NMRP_C_CLOSE_REQ]"

definition six_upload_requests :: "recv_result list" where
  "six_upload_requests =
     from_device NMRP_C_CONF_REQ # replicate 6 (from_device NMRP_C_TFTP_UL_REQ) @
     [from_device NMRP_C_CLOSE_ACK]"

definition overheard :: "recv_result list" where
  "overheard = [Received own_advertisement]"

subsection \<open>The keep-alive round\<close>

text \<open>
  \<open>keep_alive_ack tx\<close> is the reply the round leaves in \<^verbatim>\<open>tx\<close> and sends: code
  keep-alive-ack, no options, length 6, encoded; the Ethernet header and the option
  array of \<^verbatim>\<open>tx\<close> are as before. \<open>after_keep_alive s\<close> is the state in which the round
  arrives at \<^verbatim>\<open>pkt_recv\<close>. \<open>keep_alive_state\<close> is a session that waits for the
  upload-request and has a keep-alive-request in \<^verbatim>\<open>rx\<close>.
\<close>

definition keep_alive_ack :: "nmrp_pkt \<Rightarrow> nmrp_pkt" where
  "keep_alive_ack tx =
     tx\<lparr>p_msg := (p_msg tx)\<lparr>m_code := NMRP_C_KEEP_ALIVE_ACK, m_reserved := htons 0, m_id := 0,
                             m_num_opts := 0, m_len := htons 6\<rparr>\<rparr>"

definition after_keep_alive :: "state \<Rightarrow> state" where
  "after_keep_alive s =
     s\<lparr>s_tx := keep_alive_ack (s_tx s), s_err := 1, s_nsend := s_nsend s + 1,
       s_trace := s_trace s @ [Send (s_addr s) NMRP_MIN_PKT_LEN (keep_alive_ack (s_tx s))]\<rparr>"

definition keep_alive_state :: state where
  "keep_alive_state =
     \<lparr>s_tx = rx_pkt device_mac local_mac NMRP_C_CONF_ACK,
      s_rx = rx_pkt local_mac device_mac NMRP_C_KEEP_ALIVE_REQ,
      s_addr = device_mac, s_src = local_mac, s_dest = device_mac,
      s_ipaddr = [192, 168, 1, 2], s_ipmask = [255, 255, 255, 0],
      s_beg = 0, s_err = 0, s_ulreqs = 0, s_expect = NMRP_C_TFTP_UL_REQ,
      s_nsend = 2, s_ntime = 1, s_nxfer = 0, s_trace = []\<rparr>"

subsection \<open>The states of one advertising round\<close>

text \<open>
  The state after \<^verbatim>\<open>pkt_send\<close>, after \<^verbatim>\<open>pkt_recv\<close> has returned the result \<open>r\<close>, and
  after the call of \<^verbatim>\<open>time\<close>.
\<close>

definition sent :: "state \<Rightarrow> state" where
  "sent s =
     s\<lparr>s_nsend := s_nsend s + 1,
       s_trace := s_trace s @
         [Send (s_addr s) (unat (ntohs (m_len (p_msg (s_tx s)))) + ETH_HDR_LEN) (s_tx s)]\<rparr>"

definition received :: "recv_result \<Rightarrow> state \<Rightarrow> state" where
  "received r s =
     s\<lparr>s_err := recv_err r, s_rx := (case r of Received p \<Rightarrow> p | _ \<Rightarrow> s_rx s)\<rparr>"

definition ticked :: "state \<Rightarrow> state" where
  "ticked s = s\<lparr>s_ntime := s_ntime s + 1\<rparr>"

text \<open>The state a stretch of \<^verbatim>\<open>nmrp_do\<close> ends in, when it ends in one.\<close>

fun flow_state :: "'a flow \<Rightarrow> 'a option" where
  "flow_state (Continue s) = Some s"
| "flow_state (Break s) = Some s"
| "flow_state (Goto_out s) = Some s"
| "flow_state Undefined_behaviour = None"

text \<open>The arguments pass the checks made before the socket is opened.\<close>

definition args_valid :: "nmrpd_args \<Rightarrow> bool" where
  "args_valid args \<longleftrightarrow>
     a_op_upload args \<and> a_mac args \<noteq> None \<and> a_ipaddr args \<noteq> None \<and>
     a_ipmask args \<noteq> None \<and> a_file_ok args"

text \<open>The socket is opened and the three setup calls behind it succeed.\<close>

definition setup_ok :: "world \<Rightarrow> bool" where
  "setup_ok w \<longleftrightarrow> w_socket_ok w \<and> w_intf_info w \<noteq> None \<and> w_bind_ok w \<and> w_timeout_ok w"

subsection \<open>Upload-requests in a row\<close>

text \<open>
  \<open>upload_state\<close> is a session that has sent the configure-ack, has counted no
  upload-request yet and finds the first one in \<^verbatim>\<open>rx\<close>.
\<close>

definition upload_state :: state where
  "upload_state =
     \<lparr>s_tx = rx_pkt device_mac local_mac NMRP_C_CONF_ACK,
      s_rx = rx_pkt local_mac device_mac NMRP_C_TFTP_UL_REQ,
      s_addr = device_mac, s_src = local_mac, s_dest = device_mac,
      s_ipaddr = [192, 168, 1, 2], s_ipmask = [255, 255, 255, 0],
      s_beg = 0, s_err = 0, s_ulreqs = 0, s_expect = NMRP_C_TFTP_UL_REQ,
      s_nsend = 2, s_ntime = 1, s_nxfer = 0, s_trace = []\<rparr>"

section \<open>Properties of the codec\<close>

subsection \<open>Byte order and ranges\<close>

lemma htons_htons: "htons (htons x) = x"
  unfolding htons_def by (rule bit_word_eqI) (auto simp add: bit_simps)

lemma ntohs_htons: "ntohs (htons x) = x"
  unfolding htons_def ntohs_def by (rule bit_word_eqI) (auto simp add: bit_simps)

lemma ntoh_hton_opt: "ntoh_opt (hton_opt opt) = opt"
  by (simp add: ntoh_opt_def hton_opt_def ntohs_htons)

lemma length_upd_range: "length (upd_range f i n xs) = length xs"
  by (simp add: upd_range_def)

lemma upd_range_nth:
  "j < length xs \<Longrightarrow> upd_range f i n xs ! j = (if i \<le> j \<and> j < n then f (xs ! j) else xs ! j)"
  by (simp add: upd_range_def)

lemma upd_range_step:
  "i < n \<Longrightarrow> i < length xs \<Longrightarrow> upd_range f (Suc i) n (xs[i := f (xs ! i)]) = upd_range f i n xs"
  by (rule nth_equalityI) (auto simp: upd_range_def nth_list_update)

lemma upd_range_empty: "upd_range f n n xs = xs"
  by (rule nth_equalityI) (auto simp: upd_range_def)

lemma upd_range_inverse:
  "(\<And>x. g (f x) = x) \<Longrightarrow> upd_range g i n (upd_range f i n xs) = xs"
  by (rule nth_equalityI) (auto simp: upd_range_def)

lemma all_less_2: "(\<forall>i<(2::nat). P i) = (P 0 \<and> P 1)"
  by (auto simp: less_2_cases_iff)

lemma sum_less_2: "(\<Sum>i<(2::nat). f i) = f 0 + (f 1 :: nat)"
  by (simp add: numeral_2_eq_2)

subsection \<open>The loops of msg_hton and msg_ntoh\<close>

text \<open>
  Inside the array, the loop of \<^verbatim>\<open>msg_hton\<close> converts the options from \<open>i\<close> up to
  \<^verbatim>\<open>num_opts\<close> and nothing else.
\<close>

lemma msg_hton_loop_eq:
  "i \<le> unat (m_num_opts msg) \<Longrightarrow> unat (m_num_opts msg) \<le> length (m_opts msg) \<Longrightarrow>
   msg_hton_loop msg i =
     Some (msg\<lparr>m_opts := upd_range hton_opt i (unat (m_num_opts msg)) (m_opts msg)\<rparr>)"
proof (induction "unat (m_num_opts msg) - i" arbitrary: msg i)
  case 0
  then have "i = unat (m_num_opts msg)" by simp
  then show ?case by (subst msg_hton_loop.simps) (simp add: upd_range_empty)
next
  case (Suc d)
  let ?n = "unat (m_num_opts msg)"
  let ?msg' = "msg\<lparr>m_opts := (m_opts msg)[i := hton_opt (m_opts msg ! i)]\<rparr>"
  from Suc.hyps(2) have lt: "i < ?n" by simp
  with Suc.prems have il: "i < length (m_opts msg)" by simp
  have "msg_hton_loop ?msg' (Suc i) =
     Some (?msg'\<lparr>m_opts := upd_range hton_opt (Suc i) (unat (m_num_opts ?msg')) (m_opts ?msg')\<rparr>)"
    using Suc.hyps(2) Suc.prems lt by (intro Suc.hyps(1)) auto
  then show ?case using lt il
    by (subst msg_hton_loop.simps) (simp add: upd_range_step)
qed

text \<open>
  When the remainder is the sum of the declared lengths of the options from \<open>k\<close> up to
  \<open>n\<close>, each at least 4, the loop of \<^verbatim>\<open>msg_ntoh\<close> converts exactly these options
  and ends with remainder zero.
\<close>

lemma msg_ntoh_loop_eq:
  "k \<le> n \<Longrightarrow> n \<le> length (m_opts msg) \<Longrightarrow>
   (\<forall>j. k \<le> j \<and> j < n \<longrightarrow> 4 \<le> unat (ntohs (o_len (m_opts msg ! j)))) \<Longrightarrow>
   remaining = (\<Sum>j = k..<n. int (unat (ntohs (o_len (m_opts msg ! j))))) \<Longrightarrow>
   msg_ntoh_loop msg remaining k = (NtohOk, msg\<lparr>m_opts := upd_range ntoh_opt k n (m_opts msg)\<rparr>)"
proof (induction "n - k" arbitrary: msg k remaining)
  case 0
  then have "k = n" by simp
  with 0 show ?case by (subst msg_ntoh_loop.simps) (simp add: upd_range_empty)
next
  case (Suc d)
  let ?opt = "ntoh_opt (m_opts msg ! k)"
  let ?msg' = "msg\<lparr>m_opts := (m_opts msg)[k := ?opt]\<rparr>"
  from Suc.hyps(2) have lt: "k < n" by simp
  with Suc.prems have kl: "k < length (m_opts msg)" by simp
  have ge4: "4 \<le> unat (ntohs (o_len (m_opts msg ! k)))" using Suc.prems(3) lt by simp
  have split: "remaining = int (unat (ntohs (o_len (m_opts msg ! k)))) +
      (\<Sum>j = Suc k..<n. int (unat (ntohs (o_len (m_opts msg ! j)))))"
    using Suc.prems(4) lt by (simp add: sum.atLeast_Suc_lessThan)
  have nonneg: "0 \<le> (\<Sum>j = Suc k..<n. int (unat (ntohs (o_len (m_opts msg ! j)))))"
    by (rule sum_nonneg) simp
  have rem4: "4 \<le> remaining" using split ge4 nonneg by linarith
  have olen: "uint (o_len ?opt) = int (unat (ntohs (o_len (m_opts msg ! k))))"
    by (simp add: ntoh_opt_def)
  have IH: "msg_ntoh_loop ?msg' (remaining - uint (o_len ?opt)) (Suc k) =
      (NtohOk, ?msg'\<lparr>m_opts := upd_range ntoh_opt (Suc k) n (m_opts ?msg')\<rparr>)"
  proof (rule Suc.hyps(1))
    show "d = n - Suc k" using Suc.hyps(2) by simp
    show "Suc k \<le> n" using lt by simp
    show "n \<le> length (m_opts ?msg')" using Suc.prems(2) by simp
    show "\<forall>j. Suc k \<le> j \<and> j < n \<longrightarrow> 4 \<le> unat (ntohs (o_len (m_opts ?msg' ! j)))"
      using Suc.prems(3) by simp
    show "remaining - uint (o_len ?opt) =
        (\<Sum>j = Suc k..<n. int (unat (ntohs (o_len (m_opts ?msg' ! j)))))"
      using split olen by simp
  qed
  have unf: "msg_ntoh_loop msg remaining k =
      msg_ntoh_loop ?msg' (remaining - uint (o_len ?opt)) (Suc k)"
    using rem4 kl by (subst msg_ntoh_loop.simps) (simp add: NMRP_OPT_LEN_def Let_def)
  show ?case unfolding unf IH using lt kl by (simp add: upd_range_step)
qed

subsection \<open>The loop of msg_update_len\<close>

lemma msg_update_len_loop_eq:
  "i \<le> unat (m_num_opts msg) \<Longrightarrow> unat (m_num_opts msg) \<le> length (m_opts msg) \<Longrightarrow>
   msg_update_len_loop msg i =
     Some (msg\<lparr>m_len := m_len msg + (\<Sum>j = i..<unat (m_num_opts msg). o_len (m_opts msg ! j))\<rparr>)"
proof (induction "unat (m_num_opts msg) - i" arbitrary: msg i)
  case 0
  then have "i = unat (m_num_opts msg)" by simp
  then show ?case by (subst msg_update_len_loop.simps) simp
next
  case (Suc d)
  let ?n = "unat (m_num_opts msg)"
  let ?msg' = "msg\<lparr>m_len := m_len msg + o_len (m_opts msg ! i)\<rparr>"
  from Suc.hyps(2) have lt: "i < ?n" by simp
  with Suc.prems have il: "i < length (m_opts msg)" by simp
  have IH: "msg_update_len_loop ?msg' (Suc i) =
     Some (?msg'\<lparr>m_len := m_len ?msg' + (\<Sum>j = Suc i..<unat (m_num_opts ?msg'). o_len (m_opts ?msg' ! j))\<rparr>)"
    using Suc.hyps(2) Suc.prems lt by (intro Suc.hyps(1)) auto
  have unf: "msg_update_len_loop msg i = msg_update_len_loop ?msg' (Suc i)"
    using lt il by (subst msg_update_len_loop.simps) simp
  show ?case unfolding unf IH using lt
    by (simp add: sum.atLeast_Suc_lessThan add.assoc)
qed

lemma msg_update_len_loop_None:
  "i \<le> length (m_opts msg) \<Longrightarrow> length (m_opts msg) < unat (m_num_opts msg) \<Longrightarrow>
   msg_update_len_loop msg i = None"
proof (induction "length (m_opts msg) - i" arbitrary: msg i)
  case 0
  then show ?case by (subst msg_update_len_loop.simps) simp
next
  case (Suc d)
  let ?msg' = "msg\<lparr>m_len := m_len msg + o_len (m_opts msg ! i)\<rparr>"
  have "msg_update_len_loop ?msg' (Suc i) = None"
    using Suc.hyps(2) Suc.prems by (intro Suc.hyps(1)) auto
  then show ?case using Suc.hyps(2) Suc.prems
    by (subst msg_update_len_loop.simps) simp
qed

lemma msg_update_len_eq:
  assumes cap: "unat (m_num_opts m) \<le> length (m_opts m)"
  shows "msg_update_len m =
    Some (m\<lparr>m_len := of_nat NMRP_HDR_LEN + (\<Sum>i<unat (m_num_opts m). o_len (m_opts m ! i))\<rparr>)"
  unfolding msg_update_len_def using cap
  by (subst msg_update_len_loop_eq) (simp_all add: atLeast0LessThan)

lemma unat_sum_u16:
  "unat (\<Sum>i<(n::nat). (f i :: u16)) = (\<Sum>i<n. unat (f i)) mod 2 ^ 16"
proof (induction n)
  case 0
  show ?case by simp
next
  case (Suc n)
  have "unat ((\<Sum>i<n. f i) + f n) = (unat (\<Sum>i<n. f i) + unat (f n)) mod 2 ^ 16"
    by (simp add: unat_word_ariths)
  also have "\<dots> = ((\<Sum>i<n. unat (f i)) mod 2 ^ 16 + unat (f n)) mod 2 ^ 16"
    by (simp only: Suc.IH)
  also have "\<dots> = ((\<Sum>i<n. unat (f i)) + unat (f n)) mod 2 ^ 16"
    by (rule mod_add_left_eq)
  finally show ?case by simp
qed

lemma unat_len_sum:
  assumes "NMRP_HDR_LEN + (\<Sum>i<(n::nat). unat (f i :: u16)) < 2 ^ 16"
  shows "unat (of_nat NMRP_HDR_LEN + (\<Sum>i<n. f i)) = NMRP_HDR_LEN + (\<Sum>i<n. unat (f i))"
proof -
  have "unat (of_nat NMRP_HDR_LEN + (\<Sum>i<n. f i)) =
      (unat (of_nat NMRP_HDR_LEN :: u16) + unat (\<Sum>i<n. f i)) mod 2 ^ 16"
    by (simp add: unat_word_ariths)
  also have "unat (of_nat NMRP_HDR_LEN :: u16) = NMRP_HDR_LEN"
    by (simp add: NMRP_HDR_LEN_def)
  also have "(NMRP_HDR_LEN + unat (\<Sum>i<n. f i)) mod 2 ^ 16 =
      (NMRP_HDR_LEN + (\<Sum>i<n. unat (f i))) mod 2 ^ 16"
    unfolding unat_sum_u16 by (rule mod_add_right_eq)
  finally show ?thesis using assms by simp
qed

subsection \<open>The walk of msg_ntoh\<close>

lemma reaches_iff:
  "reaches msg k \<longleftrightarrow> k \<le> length (m_opts msg) \<and> (\<forall>j<k. 4 \<le> remainder msg j)"
  by (auto simp add: reaches_def list_all_iff NMRP_OPT_LEN_def)

lemma declared_len_update:
  "j \<noteq> k \<Longrightarrow> declared_len (msg\<lparr>m_opts := (m_opts msg)[k := x]\<rparr>) j = declared_len msg j"
  by (simp add: declared_len_def)

lemma msg_ntoh_loop_stop:
  "k \<le> n \<Longrightarrow> n \<le> length (m_opts msg) \<Longrightarrow>
   (\<forall>j. k \<le> j \<and> j < n \<longrightarrow> 4 \<le> r - (\<Sum>i = k..<j. declared_len msg i)) \<Longrightarrow>
   r - (\<Sum>i = k..<n. declared_len msg i) < 4 \<Longrightarrow>
   fst (msg_ntoh_loop msg r k) = classify (r - (\<Sum>i = k..<n. declared_len msg i))"
proof (induction "n - k" arbitrary: msg k r)
  case 0
  then have "k = n" by simp
  with 0 show ?case by (subst msg_ntoh_loop.simps) (simp add: classify_def NMRP_OPT_LEN_def)
next
  case (Suc d)
  let ?opt = "ntoh_opt (m_opts msg ! k)"
  let ?msg' = "msg\<lparr>m_opts := (m_opts msg)[k := ?opt]\<rparr>"
  from Suc.hyps(2) have lt: "k < n" by simp
  with Suc.prems have kl: "k < length (m_opts msg)" by simp
  have r4: "4 \<le> r" using Suc.prems(3) lt by force
  have olen: "uint (o_len ?opt) = declared_len msg k"
    by (simp add: ntoh_opt_def declared_len_def)
  have same: "\<And>a b. Suc k \<le> a \<Longrightarrow> (\<Sum>i = a..<b. declared_len ?msg' i) = (\<Sum>i = a..<b. declared_len msg i)"
    by (rule sum.cong) (simp_all add: declared_len_update)
  have shift: "\<And>j. k < j \<Longrightarrow> r - (\<Sum>i = k..<j. declared_len msg i) =
      r - declared_len msg k - (\<Sum>i = Suc k..<j. declared_len msg i)"
    by (simp add: sum.atLeast_Suc_lessThan)
  have IH: "fst (msg_ntoh_loop ?msg' (r - uint (o_len ?opt)) (Suc k)) =
      classify (r - uint (o_len ?opt) - (\<Sum>i = Suc k..<n. declared_len ?msg' i))"
  proof (rule Suc.hyps(1))
    show "d = n - Suc k" using Suc.hyps(2) by simp
    show "Suc k \<le> n" using lt by simp
    show "n \<le> length (m_opts ?msg')" using Suc.prems(2) by simp
    show "\<forall>j. Suc k \<le> j \<and> j < n \<longrightarrow>
        4 \<le> r - uint (o_len ?opt) - (\<Sum>i = Suc k..<j. declared_len ?msg' i)"
    proof (intro allI impI)
      fix j assume j: "Suc k \<le> j \<and> j < n"
      then have "4 \<le> r - (\<Sum>i = k..<j. declared_len msg i)" using Suc.prems(3) by simp
      with j show "4 \<le> r - uint (o_len ?opt) - (\<Sum>i = Suc k..<j. declared_len ?msg' i)"
        by (simp add: olen same shift)
    qed
    show "r - uint (o_len ?opt) - (\<Sum>i = Suc k..<n. declared_len ?msg' i) < 4"
      using Suc.prems(4) lt by (simp add: olen same shift)
  qed
  have unf: "msg_ntoh_loop msg r k = msg_ntoh_loop ?msg' (r - uint (o_len ?opt)) (Suc k)"
    using r4 kl by (subst msg_ntoh_loop.simps) (simp add: NMRP_OPT_LEN_def Let_def)
  show ?case unfolding unf IH using lt by (simp add: olen same shift)
qed

lemma msg_ntoh_loop_oob:
  "k \<le> length (m_opts msg) \<Longrightarrow>
   (\<forall>j. k \<le> j \<and> j \<le> length (m_opts msg) \<longrightarrow> 4 \<le> r - (\<Sum>i = k..<j. declared_len msg i)) \<Longrightarrow>
   fst (msg_ntoh_loop msg r k) = OutOfBounds"
proof (induction "length (m_opts msg) - k" arbitrary: msg k r)
  case 0
  then have k: "k = length (m_opts msg)" by simp
  have "4 \<le> r" using 0(3) k by force
  with k show ?case by (subst msg_ntoh_loop.simps) (simp add: NMRP_OPT_LEN_def)
next
  case (Suc d)
  let ?opt = "ntoh_opt (m_opts msg ! k)"
  let ?msg' = "msg\<lparr>m_opts := (m_opts msg)[k := ?opt]\<rparr>"
  from Suc.hyps(2) have kl: "k < length (m_opts msg)" by simp
  have r4: "4 \<le> r" using Suc.prems(2) kl by force
  have olen: "uint (o_len ?opt) = declared_len msg k"
    by (simp add: ntoh_opt_def declared_len_def)
  have same: "\<And>a b. Suc k \<le> a \<Longrightarrow> (\<Sum>i = a..<b. declared_len ?msg' i) = (\<Sum>i = a..<b. declared_len msg i)"
    by (rule sum.cong) (simp_all add: declared_len_update)
  have shift: "\<And>j. k < j \<Longrightarrow> r - (\<Sum>i = k..<j. declared_len msg i) =
      r - declared_len msg k - (\<Sum>i = Suc k..<j. declared_len msg i)"
    by (simp add: sum.atLeast_Suc_lessThan)
  have IH: "fst (msg_ntoh_loop ?msg' (r - uint (o_len ?opt)) (Suc k)) = OutOfBounds"
  proof (rule Suc.hyps(1))
    show "d = length (m_opts ?msg') - Suc k" using Suc.hyps(2) by simp
    show "Suc k \<le> length (m_opts ?msg')" using kl by simp
    show "\<forall>j. Suc k \<le> j \<and> j \<le> length (m_opts ?msg') \<longrightarrow>
        4 \<le> r - uint (o_len ?opt) - (\<Sum>i = Suc k..<j. declared_len ?msg' i)"
    proof (intro allI impI)
      fix j assume j: "Suc k \<le> j \<and> j \<le> length (m_opts ?msg')"
      then have "4 \<le> r - (\<Sum>i = k..<j. declared_len msg i)" using Suc.prems(2) by simp
      with j show "4 \<le> r - uint (o_len ?opt) - (\<Sum>i = Suc k..<j. declared_len ?msg' i)"
        by (simp add: olen same shift)
    qed
  qed
  have unf: "msg_ntoh_loop msg r k = msg_ntoh_loop ?msg' (r - uint (o_len ?opt)) (Suc k)"
    using r4 kl by (subst msg_ntoh_loop.simps) (simp add: NMRP_OPT_LEN_def Let_def)
  show ?case unfolding unf IH ..
qed

lemma msg_ntoh_stop:
  assumes "reaches msg k" and "remainder msg k < int NMRP_OPT_LEN"
  shows "fst (msg_ntoh msg) = classify (remainder msg k)"
proof -
  let ?m = "msg_hdr_ntoh msg"
  let ?r = "uint (m_len ?m) - int NMRP_HDR_LEN"
  have D: "declared_len ?m = declared_len msg"
    by (rule ext) (simp add: declared_len_def msg_hdr_ntoh_def)
  have L: "m_len ?m = ntohs (m_len msg)"
    by (simp add: msg_hdr_ntoh_def)
  have R: "\<And>j. ?r - (\<Sum>i = 0..<j. declared_len ?m i) = remainder msg j"
    by (simp add: remainder_def D L atLeast0LessThan)
  have "fst (msg_ntoh_loop ?m ?r 0) = classify (?r - (\<Sum>i = 0..<k. declared_len ?m i))"
  proof (rule msg_ntoh_loop_stop)
    show "0 \<le> k" by simp
    show "k \<le> length (m_opts ?m)" using assms(1) by (simp add: reaches_iff msg_hdr_ntoh_def)
    show "\<forall>j. 0 \<le> j \<and> j < k \<longrightarrow> 4 \<le> ?r - (\<Sum>i = 0..<j. declared_len ?m i)"
      unfolding R using assms(1) by (simp add: reaches_iff)
    show "?r - (\<Sum>i = 0..<k. declared_len ?m i) < 4"
      unfolding R using assms(2) by (simp add: NMRP_OPT_LEN_def)
  qed
  then show ?thesis unfolding R by (simp add: msg_ntoh_def Let_def)
qed

lemma msg_ntoh_oob:
  assumes "\<forall>j \<le> length (m_opts msg). int NMRP_OPT_LEN \<le> remainder msg j"
  shows "fst (msg_ntoh msg) = OutOfBounds"
proof -
  let ?m = "msg_hdr_ntoh msg"
  let ?r = "uint (m_len ?m) - int NMRP_HDR_LEN"
  have D: "declared_len ?m = declared_len msg"
    by (rule ext) (simp add: declared_len_def msg_hdr_ntoh_def)
  have L: "m_len ?m = ntohs (m_len msg)"
    by (simp add: msg_hdr_ntoh_def)
  have R: "\<And>j. ?r - (\<Sum>i = 0..<j. declared_len ?m i) = remainder msg j"
    by (simp add: remainder_def D L atLeast0LessThan)
  have "fst (msg_ntoh_loop ?m ?r 0) = OutOfBounds"
  proof (rule msg_ntoh_loop_oob)
    show "0 \<le> length (m_opts ?m)" by simp
    show "\<forall>j. 0 \<le> j \<and> j \<le> length (m_opts ?m) \<longrightarrow> 4 \<le> ?r - (\<Sum>i = 0..<j. declared_len ?m i)"
      unfolding R using assms by (simp add: NMRP_OPT_LEN_def msg_hdr_ntoh_def)
  qed
  then show ?thesis by (simp add: msg_ntoh_def Let_def)
qed

subsection \<open>Fields in memory\<close>

lemma ntohs_host16: "ntohs (host16 bs off) = net16 bs off"
  unfolding ntohs_def host16_def net16_def
  by (rule bit_word_eqI) (auto simp add: bit_simps dest: bit_imp_le_length)

text \<open>
  Whatever lengths the options declare, \<^verbatim>\<open>msg_ntoh\<close> takes the header of option \<open>k\<close>
  from offset 6 + 12 \<open>k\<close> of the message.
\<close>

lemma msg_ntoh_header_offsets:
  "k < NMRP_MAX_OPTS \<Longrightarrow>
   ntoh_opt (m_opts (msg_of_bytes bs 0) ! k) =
     \<lparr>o_type = net16 bs (NMRP_HDR_LEN + SIZEOF_NMRP_OPT * k),
      o_len = net16 bs (NMRP_HDR_LEN + SIZEOF_NMRP_OPT * k + 2),
      o_val = take 8 (drop (NMRP_HDR_LEN + SIZEOF_NMRP_OPT * k + 4) bs)\<rparr>"
  by (simp add: msg_of_bytes_def opt_of_bytes_def ntoh_opt_def ntohs_host16 mult.commute)

text \<open>
  The outcome of \<^verbatim>\<open>msg_ntoh\<close> in terms of the length fields it reads in the array
  entries: when the loop arrives at entry \<open>k\<close> with fewer than 4 bytes remaining, the
  sign of that remainder decides. This describes the walk the code makes, not the
  options as they are packed in the message.
\<close>

lemma msg_ntoh_entry_walk:
  assumes "reaches msg k" and "remainder msg k < int NMRP_OPT_LEN"
  shows "(fst (msg_ntoh msg) = TooShort \<longleftrightarrow> 0 < remainder msg k)
       \<and> (fst (msg_ntoh msg) = Trailing \<longleftrightarrow> remainder msg k < 0)
       \<and> (fst (msg_ntoh msg) = NtohOk \<longleftrightarrow> remainder msg k = 0)
       \<and> ntoh_ret (fst (msg_ntoh msg)) = Some (if remainder msg k = 0 then 0 else 1)"
  using msg_ntoh_stop [OF assms] by (simp add: classify_def)

text \<open>
  The loop leaves the option array exactly when the remainder is still at least
  \<^verbatim>\<open>NMRP_OPT_LEN\<close> at every option of the array and behind the last one.
\<close>

lemma msg_ntoh_out_of_bounds_iff:
  "fst (msg_ntoh msg) = OutOfBounds \<longleftrightarrow>
     (\<forall>j \<le> length (m_opts msg). int NMRP_OPT_LEN \<le> remainder msg j)"
proof
  assume oob: "fst (msg_ntoh msg) = OutOfBounds"
  show "\<forall>j \<le> length (m_opts msg). int NMRP_OPT_LEN \<le> remainder msg j"
  proof (rule ccontr)
    assume "\<not> (\<forall>j \<le> length (m_opts msg). int NMRP_OPT_LEN \<le> remainder msg j)"
    then have ex: "\<exists>j. j \<le> length (m_opts msg) \<and> remainder msg j < 4"
      by (auto simp: NMRP_OPT_LEN_def not_le)
    define k where "k = (LEAST j. j \<le> length (m_opts msg) \<and> remainder msg j < 4)"
    have k: "k \<le> length (m_opts msg) \<and> remainder msg k < 4"
      unfolding k_def using ex by (rule LeastI_ex)
    have least: "\<And>j. j < k \<Longrightarrow> \<not> (j \<le> length (m_opts msg) \<and> remainder msg j < 4)"
      unfolding k_def by (rule not_less_Least)
    have "reaches msg k" unfolding reaches_iff using k least by force
    moreover have "remainder msg k < int NMRP_OPT_LEN" using k by (simp add: NMRP_OPT_LEN_def)
    ultimately have "fst (msg_ntoh msg) = classify (remainder msg k)" by (rule msg_ntoh_stop)
    with oob show False by (simp add: classify_def split: if_splits)
  qed
next
  assume "\<forall>j \<le> length (m_opts msg). int NMRP_OPT_LEN \<le> remainder msg j"
  then show "fst (msg_ntoh msg) = OutOfBounds" by (rule msg_ntoh_oob)
qed

section \<open>Properties of pkt_recv\<close>

text \<open>
  Exchanging the header bytes in the buffer is \<^verbatim>\<open>msg_hdr_ntoh\<close> on the fields of the
  struct.
\<close>

lemma host16_swap16_at:
  "off + 1 < length bs \<Longrightarrow> host16 (swap16_at bs off) off = ntohs (host16 bs off)"
  by (simp add: ntohs_host16) (simp add: host16_def net16_def swap16_at_def or.commute)

lemma host16_swap16_at_other:
  "off' + 1 < off \<or> off + 1 < off' \<Longrightarrow> host16 (swap16_at bs off) off' = host16 bs off'"
  by (auto simp add: host16_def swap16_at_def)

lemma nth_swap16_at_other:
  "i \<noteq> off \<Longrightarrow> i \<noteq> off + 1 \<Longrightarrow> swap16_at bs off ! i = bs ! i"
  by (simp add: swap16_at_def)

lemma length_swap16_at: "length (swap16_at bs off) = length bs"
  by (simp add: swap16_at_def)

lemma take_swap16_at: "n \<le> off \<Longrightarrow> take n (swap16_at bs off) = take n bs"
  by (simp add: swap16_at_def)

lemma drop_swap16_at: "off + 1 < n \<Longrightarrow> drop n (swap16_at bs off) = drop n bs"
  by (simp add: swap16_at_def)

lemma take_drop_swap16_at:
  "d + n \<le> off \<Longrightarrow> take n (drop d (swap16_at bs off)) = take n (drop d bs)"
  by (simp add: swap16_at_def drop_update_swap)

lemma host32_swap16_at_other:
  "off + 1 < off' \<Longrightarrow> host32 (swap16_at bs off) off' = host32 bs off'"
  by (simp add: host32_def swap16_at_def)

lemma pkt_hdr_ntoh_bytes_eq:
  assumes "length bs = SIZEOF_NMRP_PKT"
  shows "pkt_of_bytes (pkt_hdr_ntoh_bytes bs) =
     (pkt_of_bytes bs)\<lparr>p_msg := msg_hdr_ntoh (p_msg (pkt_of_bytes bs))\<rparr>"
proof -
  have len: "length bs = 48"
    using assms by (simp add: SIZEOF_NMRP_PKT_def SIZEOF_NMRP_MSG_def ETH_HDR_LEN_def
        NMRP_HDR_LEN_def NMRP_MAX_OPTS_def SIZEOF_NMRP_OPT_def)
  have upt: "[0..<NMRP_MAX_OPTS] = [0, 1]"
    by (simp add: NMRP_MAX_OPTS_def numeral_2_eq_2)
  show ?thesis
    using len
    by (simp add: pkt_of_bytes_def msg_of_bytes_def opt_of_bytes_def pkt_hdr_ntoh_bytes_def
        msg_hdr_ntoh_def upt ETH_HDR_LEN_def NMRP_HDR_LEN_def SIZEOF_NMRP_OPT_def
        NMRP_MAX_OPTS_def host16_swap16_at host16_swap16_at_other nth_swap16_at_other
        length_swap16_at take_swap16_at drop_swap16_at take_drop_swap16_at
        host32_swap16_at_other)
qed

text \<open>A well-formed configure-request is received, decoded and taken off the socket.\<close>

lemma pkt_recv_conf_req:
  "pkt_recv [Frame conf_req_frame, Eagain] =
     (Some 0, rx_pkt local_mac device_mac NMRP_C_CONF_REQ, [Eagain])"
  by code_simp

text \<open>So is the advertisement of \<^verbatim>\<open>nmrp_do\<close>, whose destination is the device.\<close>

lemma pkt_recv_own_advertisement:
  "pkt_recv [Frame advertisement_frame] = (Some 0, own_advertisement, [])"
  by code_simp

text \<open>
  The example messages reach \<^verbatim>\<open>msg_ntoh\<close> through \<^verbatim>\<open>pkt_recv\<close>: the frame with
  \<open>two_opts_wire\<close> is accepted, the second option reported with the type 0xC0A8; on
  the frames with \<open>zero_len_wire\<close> and \<open>three_opts_wire\<close> the walk leaves the option
  array; the frame with \<open>trailing_wire\<close> is refused.
\<close>

lemma pkt_recv_two_opts:
  "fst (pkt_recv [Frame (nmrp_frame two_opts_wire)]) = Some 0
   \<and> map o_type (m_opts (p_msg (fst (snd (pkt_recv [Frame (nmrp_frame two_opts_wire)])))))
       = [NMRP_O_MAGIC_NO, 0xC0A8]"
  by code_simp

lemma pkt_recv_leaves_array:
  "fst (pkt_recv [Frame (nmrp_frame zero_len_wire)]) = None
   \<and> fst (pkt_recv [Frame (nmrp_frame three_opts_wire)]) = None"
  by code_simp

lemma pkt_recv_trailing:
  "fst (pkt_recv [Frame (nmrp_frame trailing_wire)]) = Some 1"
  by code_simp

text \<open>
  So is the frame with \<open>packed_two_opts_wire\<close>, whose options fill the message
  exactly, while the frame with \<open>overlong_second_wire\<close> is accepted.
\<close>

lemma pkt_recv_packed_options:
  "fst (pkt_recv [Frame (nmrp_frame packed_two_opts_wire)]) = Some 1
   \<and> fst (pkt_recv [Frame (nmrp_frame overlong_second_wire)]) = Some 0"
  by code_simp

text \<open>On a socket where nothing arrives, \<^verbatim>\<open>pkt_recv\<close> reports a timeout.\<close>

lemma pkt_recv_timeout: "fst (pkt_recv []) = Some 2"
  by code_simp

lemma peek_buf_nth:
  assumes "i < n" "n \<le> length f" 
  shows "(take n f @ drop n buf) ! i = f ! i"
  using assms by (simp add: nth_append)

section \<open>Properties of nmrp_do\<close>

subsection \<open>Single rounds of the handshake loop\<close>

lemma pkt_send_eq: "pkt_send w s = (w_send_ok w (s_nsend s), sent s)"
  by (simp add: pkt_send_def sent_def Let_def)

lemma msg_update_len_no_opts:
  "m_num_opts m = 0 \<Longrightarrow> msg_update_len m = Some (m\<lparr>m_len := 6\<rparr>)"
  unfolding msg_update_len_def
  by (subst msg_update_len_loop.simps) (simp add: NMRP_HDR_LEN_def)

lemma msg_hton_no_opts:
  "m_num_opts m = 0 \<Longrightarrow>
   msg_hton m = Some (m\<lparr>m_reserved := htons (m_reserved m), m_len := htons (m_len m)\<rparr>)"
  unfolding msg_hton_def
  by (subst msg_hton_loop.simps) simp

lemmas nmrp_codes =
  NMRP_C_NONE_def NMRP_C_ADVERTISE_def NMRP_C_CONF_REQ_def NMRP_C_CONF_ACK_def
  NMRP_C_CLOSE_REQ_def NMRP_C_CLOSE_ACK_def NMRP_C_KEEP_ALIVE_REQ_def
  NMRP_C_KEEP_ALIVE_ACK_def NMRP_C_TFTP_UL_REQ_def

lemma handle_msg_keep_alive:
  assumes "m_code (p_msg (s_rx s)) = NMRP_C_KEEP_ALIVE_REQ"
  shows "handle_msg w args s =
     (if w_send_ok w (s_nsend s) then Continue (after_keep_alive s)
      else Goto_out (after_keep_alive s))"
  using assms
  by (simp add: handle_msg_def dispatch_def reset_tx_def set_tx_code_def reply_def pkt_send_def
      msg_update_len_no_opts msg_hton_no_opts after_keep_alive_def keep_alive_ack_def Let_def
      ntohs_htons NMRP_MIN_PKT_LEN_def ETH_HDR_LEN_def NMRP_HDR_LEN_def nmrp_codes)

lemma sent_codes_append: "sent_codes (a @ b) = sent_codes a @ sent_codes b"
  by (induction a rule: sent_codes.induct) simp_all

lemma transfers_append: "transfers (a @ b) = transfers a + transfers b"
  by (simp add: transfers_def)

text \<open>
  An upload-request below the limit starts a transfer and sends nothing; from the
  sixth on, a close-request is sent instead and the round goes on to \<^verbatim>\<open>pkt_recv\<close>
  like any other.
\<close>

lemma handle_msg_upload:
  assumes "m_code (p_msg (s_rx s)) = NMRP_C_TFTP_UL_REQ" and "s_ulreqs s < 5"
    and "w_transfer w (s_nxfer s) = 0"
  shows "handle_msg w args s =
     Continue ((reset_tx s)\<lparr>s_ulreqs := s_ulreqs s + 1, s_err := 0, s_nxfer := s_nxfer s + 1,
        s_expect := NMRP_C_CLOSE_REQ,
        s_trace := s_trace s @ [Transfer, SetRxTimeout (a_ul_timeout args)]\<rparr>)"
  using assms
  by (simp add: handle_msg_def dispatch_def tftp_ul_req_def reply_def reset_tx_def Let_def
      nmrp_codes)

lemma handle_msg_upload_exhausted:
  assumes "m_code (p_msg (s_rx s)) = NMRP_C_TFTP_UL_REQ" and "5 \<le> s_ulreqs s"
  shows "\<exists>s'. handle_msg w args s =
           (if w_send_ok w (s_nsend s) then Continue s' else Goto_out s')
       \<and> s_ulreqs s' = s_ulreqs s + 1 \<and> s_err s' = 1
       \<and> sent_codes (s_trace s') = sent_codes (s_trace s) @ [NMRP_C_CLOSE_REQ]
       \<and> transfers (s_trace s') = transfers (s_trace s)"
  using assms
  by (simp add: handle_msg_def dispatch_def tftp_ul_req_def reply_def reset_tx_def Let_def
      set_tx_code_def msg_update_len_no_opts msg_hton_no_opts pkt_send_eq sent_def
      nmrp_codes sent_codes_append transfers_append, simp add: transfers_def)

text \<open>
  Every reply goes out with a length field computed from its options just before.
\<close>

lemma reply_recomputes_length:
  assumes code: "m_code (p_msg (s_tx s)) \<noteq> NMRP_C_NONE"
    and cap: "unat (m_num_opts (p_msg (s_tx s))) \<le> length (m_opts (p_msg (s_tx s)))"
  shows "\<exists>s'. flow_state (reply w s) = Some s'
      \<and> ntohs (m_len (p_msg (s_tx s'))) =
          of_nat NMRP_HDR_LEN +
          (\<Sum>i<unat (m_num_opts (p_msg (s_tx s))). o_len (m_opts (p_msg (s_tx s)) ! i))"
proof -
  let ?m = "p_msg (s_tx s)"
  let ?n = "unat (m_num_opts ?m)"
  let ?u = "?m\<lparr>m_len := of_nat NMRP_HDR_LEN + (\<Sum>i<?n. o_len (m_opts ?m ! i))\<rparr>"
  let ?e = "?u\<lparr>m_reserved := htons (m_reserved ?u), m_len := htons (m_len ?u),
               m_opts := upd_range hton_opt 0 ?n (m_opts ?m)\<rparr>"
  have u: "msg_update_len ?m = Some ?u" using cap by (rule msg_update_len_eq)
  have e: "msg_hton ?u = Some ?e"
    unfolding msg_hton_def using cap by (subst msg_hton_loop_eq) simp_all
  show ?thesis
    using code by (simp add: reply_def u e pkt_send_eq sent_def ntohs_htons split: bool.splits)
qed

subsection \<open>The advertising loop, round by round\<close>


lemma advertise_Nil:
  "advertise w s [] =
     (if w_send_ok w (s_nsend s) then (Continue (sent s), []) else (Goto_out (sent s), []))"
  by (subst advertise.simps) (simp add: pkt_send_eq)

lemma advertise_Cons:
  "advertise w s (r # rs) =
     (if \<not> w_send_ok w (s_nsend s) then (Goto_out (sent s), r # rs)
      else if recv_err r = 0 \<and> eh_dhost (p_eh (s_rx (received r (sent s)))) = s_src s
        then (Break (received r (sent s)), rs)
      else if recv_err r = 1 then (Goto_out (received r (sent s)), rs)
      else if 60 \<le> w_time w (s_ntime s) - s_beg s
        then (Goto_out (ticked (received r (sent s))), rs)
      else advertise w (ticked (received r (sent s))) rs)"
  by (subst advertise.simps)
     (simp add: pkt_send_eq Let_def, simp add: sent_def received_def ticked_def
        split: recv_result.splits)

lemma advertise_break:
  "advertise w s rs = (Break s', rs') \<Longrightarrow>
   s_err s' = 0 \<and> s_src s' = s_src s \<and> eh_dhost (p_eh (s_rx s')) = s_src s"
proof (induction rs arbitrary: s)
  case Nil
  then show ?case by (simp add: advertise_Nil split: if_splits)
next
  case (Cons r rs)
  from Cons.prems consider
      (here) "s' = received r (sent s)" "recv_err r = 0"
        "eh_dhost (p_eh (s_rx (received r (sent s)))) = s_src s"
    | (later) "advertise w (ticked (received r (sent s))) rs = (Break s', rs')"
    by (auto simp add: advertise_Cons split: if_splits)
  then show ?case
  proof cases
    case here
    then show ?thesis by (simp add: received_def sent_def)
  next
    case later
    from Cons.IH [OF later] show ?thesis by (simp add: received_def sent_def ticked_def)
  qed
qed

text \<open>
  When the 60 seconds are over, \<^verbatim>\<open>nmrp_do\<close> returns the value the last
  \<^verbatim>\<open>pkt_recv\<close> returned: 2 or 3, but 0 after a message for another host.
\<close>

lemma advertise_budget_exceeded:
  assumes "w_send_ok w (s_nsend s)"
    and "\<not> (recv_err r = 0 \<and> eh_dhost (p_eh (s_rx (received r (sent s)))) = s_src s)"
    and "recv_err r \<noteq> 1"
    and "60 \<le> w_time w (s_ntime s) - s_beg s"
  shows "advertise w s (r # rs) = (Goto_out (ticked (received r (sent s))), rs)"
    and "out (ticked (received r (sent s))) =
      (Returned (recv_err r), s_trace (sent s) @ [Close])"
  using assms by (simp_all add: advertise_Cons out_def ticked_def received_def)

subsection \<open>Closing the socket\<close>

lemma closes_append: "closes (a @ b) = closes a + closes b"
  by (simp add: closes_def)

lemma closes_simps:
  "closes [] = 0" "closes (x # xs) = (if x = Close then 1 else 0) + closes xs"
  by (simp_all add: closes_def)

lemma dispatch_closes:
  "flow_state (dispatch w args s) = Some s' \<Longrightarrow> closes (s_trace s') = closes (s_trace s)"
  by (auto simp add: dispatch_def tftp_ul_req_def conf_req_def set_tx_code_def Let_def
      closes_append closes_simps split: if_splits)

lemma reply_closes:
  "flow_state (reply w s) = Some s' \<Longrightarrow> closes (s_trace s') = closes (s_trace s)"
  by (auto simp add: reply_def pkt_send_eq sent_def closes_append closes_simps
      split: if_splits option.splits bool.splits)

lemma handle_msg_closes:
  assumes "flow_state (handle_msg w args s) = Some s'"
  shows "closes (s_trace s') = closes (s_trace s)"
proof (cases "dispatch w args (reset_tx s)")
  case (Continue s1)
  have s1: "closes (s_trace s1) = closes (s_trace s)"
    using dispatch_closes [of w args "reset_tx s" s1] Continue by (simp add: reset_tx_def)
  show ?thesis
  proof (cases "reply w s1")
    case (Continue s2)
    with \<open>dispatch w args (reset_tx s) = Continue s1\<close> assms have "s' = s2"
      by (simp add: handle_msg_def split: if_splits)
    with reply_closes [of w s1 s2] Continue s1 show ?thesis by simp
  next
    case (Break s2)
    with \<open>dispatch w args (reset_tx s) = Continue s1\<close> assms have "s' = s2"
      by (simp add: handle_msg_def)
    with reply_closes [of w s1 s2] Break s1 show ?thesis by simp
  next
    case (Goto_out s2)
    with \<open>dispatch w args (reset_tx s) = Continue s1\<close> assms have "s' = s2"
      by (simp add: handle_msg_def)
    with reply_closes [of w s1 s2] Goto_out s1 show ?thesis by simp
  next
    case Undefined_behaviour
    with \<open>dispatch w args (reset_tx s) = Continue s1\<close> assms show ?thesis
      by (simp add: handle_msg_def)
  qed
next
  case (Break s1)
  with assms have "s' = s1" by (simp add: handle_msg_def)
  with dispatch_closes [of w args "reset_tx s" s1] Break show ?thesis by (simp add: reset_tx_def)
next
  case (Goto_out s1)
  with assms have "s' = s1" by (simp add: handle_msg_def)
  with dispatch_closes [of w args "reset_tx s" s1] Goto_out show ?thesis by (simp add: reset_tx_def)
next
  case Undefined_behaviour
  with assms show ?thesis by (simp add: handle_msg_def)
qed

lemma handshake_closes_once:
  "closes (s_trace s) = 0 \<Longrightarrow> handshake w args s rs = (Returned v, tr) \<Longrightarrow> closes tr = 1"
proof (induction rs arbitrary: s)
  case Nil
  show ?case
  proof (cases "handle_msg w args s")
    case (Continue s1)
    with Nil.prems show ?thesis by (subst (asm) handshake.simps) simp
  next
    case (Break s1)
    with handle_msg_closes [of w args s s1] Nil.prems show ?thesis
      by (subst (asm) handshake.simps) (auto simp add: out_def closes_append closes_simps)
  next
    case (Goto_out s1)
    with handle_msg_closes [of w args s s1] Nil.prems show ?thesis
      by (subst (asm) handshake.simps) (auto simp add: out_def closes_append closes_simps)
  next
    case Undefined_behaviour
    with Nil.prems show ?thesis by (subst (asm) handshake.simps) simp
  qed
next
  case (Cons r rs)
  show ?case
  proof (cases "handle_msg w args s")
    case (Continue s1)
    have c1: "closes (s_trace s1) = 0"
      using handle_msg_closes [of w args s s1] Continue Cons.prems(1) by simp
    show ?thesis
    proof (cases r)
      case (Received p)
      let ?s = "s1\<lparr>s_err := 0, s_rx := p,
                   s_trace := s_trace s1 @ [SetRxTimeout (a_rx_timeout args)]\<rparr>"
      have "handshake w args ?s rs = (Returned v, tr)"
        using Cons.prems(2) Continue Received by (subst (asm) handshake.simps) simp
      moreover have "closes (s_trace ?s) = 0" using c1 by (simp add: closes_append closes_simps)
      ultimately show ?thesis by (rule Cons.IH [rotated])
    next
      case RecvError
      with Cons.prems(2) Continue c1 show ?thesis
        by (subst (asm) handshake.simps) (auto simp add: out_def closes_append closes_simps)
    next
      case RecvTimeout
      with Cons.prems(2) Continue c1 show ?thesis
        by (subst (asm) handshake.simps) (auto simp add: out_def closes_append closes_simps)
    next
      case RecvWrongProto
      with Cons.prems(2) Continue c1 show ?thesis
        by (subst (asm) handshake.simps) (auto simp add: out_def closes_append closes_simps)
    qed
  next
    case (Break s1)
    with handle_msg_closes [of w args s s1] Cons.prems show ?thesis
      by (subst (asm) handshake.simps) (auto simp add: out_def closes_append closes_simps)
  next
    case (Goto_out s1)
    with handle_msg_closes [of w args s s1] Cons.prems show ?thesis
      by (subst (asm) handshake.simps) (auto simp add: out_def closes_append closes_simps)
  next
    case Undefined_behaviour
    with Cons.prems show ?thesis by (subst (asm) handshake.simps) simp
  qed
qed

lemma advertise_closes:
  "flow_state (fst (advertise w s rs)) = Some s' \<Longrightarrow> closes (s_trace s') = closes (s_trace s)"
proof (induction rs arbitrary: s)
  case Nil
  then show ?case
    by (auto simp add: advertise_Nil sent_def closes_append closes_simps split: if_splits)
next
  case (Cons r rs)
  have t: "closes (s_trace (ticked (received r (sent s)))) = closes (s_trace s)"
    by (simp add: ticked_def received_def sent_def closes_append closes_simps)
  from Cons.prems consider
      (now) "s' = sent s \<or> s' = received r (sent s) \<or> s' = ticked (received r (sent s))"
    | (later) "flow_state (fst (advertise w (ticked (received r (sent s))) rs)) = Some s'"
    by (auto simp add: advertise_Cons split: if_splits)
  then show ?case
  proof cases
    case now
    then show ?thesis
      by (auto simp add: ticked_def received_def sent_def closes_append closes_simps)
  next
    case later
    from Cons.IH [OF later] t show ?thesis by simp
  qed
qed

text \<open>
  Without a socket nothing is opened or closed; once the setup is through, every return
  closes the socket exactly once; a failure of the setup behind \<^verbatim>\<open>socket\<close> returns
  with the socket open.
\<close>

lemma nmrp_do_without_socket:
  "\<not> args_valid args \<or> \<not> w_socket_ok w \<Longrightarrow> nmrp_do w args = (Returned 1, [])"
  by (auto simp add: nmrp_do_def args_valid_def split: option.splits)

lemma nmrp_do_setup_failure:
  "args_valid args \<Longrightarrow> w_socket_ok w \<Longrightarrow> \<not> setup_ok w \<Longrightarrow>
   nmrp_do w args = (Returned 1, [Socket])"
  by (auto simp add: nmrp_do_def args_valid_def setup_ok_def split: option.splits)

lemma nmrp_do_closes_once:
  assumes valid: "args_valid args" and stp: "setup_ok w"
    and ret: "nmrp_do w args = (Returned v, tr)"
  shows "closes tr = 1"
proof -
  from valid obtain dest ipaddr ipmask where
    a: "a_op_upload args" "a_mac args = Some dest" "a_ipaddr args = Some ipaddr"
       "a_ipmask args = Some ipmask" "a_file_ok args"
    by (auto simp add: args_valid_def)
  from stp obtain src where
    w: "w_socket_ok w" "w_intf_info w = Some src" "w_bind_ok w" "w_timeout_ok w"
    by (auto simp add: setup_ok_def)
  let ?tx = "advertise_tx (w_stack w) src dest"
  from ret a w obtain m1 m2 where
    m: "msg_update_len (p_msg ?tx) = Some m1" "msg_hton m1 = Some m2"
    by (auto simp add: nmrp_do_def Let_def split: option.splits)
  let ?s = "\<lparr>s_tx = ?tx\<lparr>p_msg := m2\<rparr>, s_rx = w_stack w, s_addr = dest,
            s_src = src, s_dest = dest, s_ipaddr = ipaddr, s_ipmask = ipmask,
            s_beg = w_time w 0, s_err = 1, s_ulreqs = 0, s_expect = NMRP_C_NONE,
            s_nsend = 0, s_ntime = 1, s_nxfer = 0,
            s_trace = [Socket, SetRxTimeout (a_rx_timeout args)]\<rparr>"
  have c0: "closes (s_trace ?s) = 0" by (simp add: closes_simps)
  obtain f rs where adv: "advertise w ?s (w_recv w) = (f, rs)" by (cases "advertise w ?s (w_recv w)")
  have run: "nmrp_do w args =
      (case f of Break s1 \<Rightarrow> start_handshake w args s1 rs
       | Goto_out s1 \<Rightarrow> out s1
       | Continue s1 \<Rightarrow> (Blocked, s_trace s1)
       | Undefined_behaviour \<Rightarrow> (Undefined, []))"
    using a w m adv by (simp add: nmrp_do_def Let_def)
  show ?thesis
  proof (cases f)
    case (Continue s1)
    with run ret show ?thesis by simp
  next
    case (Break s1)
    have "closes (s_trace s1) = 0"
      using advertise_closes [of w ?s "w_recv w" s1] adv Break c0 by simp
    then have "closes (s_trace (s1\<lparr>s_expect := NMRP_C_CONF_REQ, s_ulreqs := 0\<rparr>)) = 0" by simp
    moreover have "handshake w args (s1\<lparr>s_expect := NMRP_C_CONF_REQ, s_ulreqs := 0\<rparr>) rs =
        (Returned v, tr)"
      using run ret Break by (simp add: start_handshake_def)
    ultimately show ?thesis by (rule handshake_closes_once)
  next
    case (Goto_out s1)
    have "closes (s_trace s1) = 0"
      using advertise_closes [of w ?s "w_recv w" s1] adv Goto_out c0 by simp
    with run ret Goto_out show ?thesis
      by (auto simp add: out_def closes_append closes_simps)
  next
    case Undefined_behaviour
    with run ret show ?thesis by simp
  qed
qed

subsection \<open>Six upload-requests in a row\<close>

text \<open>
  From a state that has counted no upload-request yet, six upload-requests with
  successful transfers lead to 5 transfers and a close-request, and the loop is then in
  \<^verbatim>\<open>pkt_recv\<close> again. If that call fails or times out, \<^verbatim>\<open>nmrp_do\<close> closes the socket
  and returns its nonzero result.
\<close>

lemma transfers_Nil_Cons:
  "transfers [] = 0" "transfers (x # xs) = (if x = Transfer then 1 else 0) + transfers xs"
  by (simp_all add: transfers_def)

lemma handshake_upload_requests:
  assumes "m_code (p_msg (s_rx s)) = NMRP_C_TFTP_UL_REQ"
    and "\<forall>p \<in> set ps. m_code (p_msg p) = NMRP_C_TFTP_UL_REQ"
    and "0 \<le> s_ulreqs s" and "s_ulreqs s + int (length ps) = 5"
    and "\<forall>n. w_transfer w n = 0" and "w_send_ok w (s_nsend s)"
    and "recv_err r \<noteq> 0"
  shows "\<exists>tr. handshake w args s (map Received ps @ r # rest) = (Returned (recv_err r), tr)
      \<and> transfers tr = transfers (s_trace s) + length ps
      \<and> sent_codes tr = sent_codes (s_trace s) @ [NMRP_C_CLOSE_REQ]
      \<and> closes tr = closes (s_trace s) + 1"
  using assms
proof (induction ps arbitrary: s)
  case Nil
  then have five: "5 \<le> s_ulreqs s" by simp
  from handle_msg_upload_exhausted [OF Nil.prems(1) five, of w args] Nil.prems(6)
  obtain s' where s': "handle_msg w args s = Continue s'"
      "sent_codes (s_trace s') = sent_codes (s_trace s) @ [NMRP_C_CLOSE_REQ]"
      "transfers (s_trace s') = transfers (s_trace s)"
    by auto
  have c: "closes (s_trace s') = closes (s_trace s)"
    using handle_msg_closes [of w args s s'] s'(1) by simp
  have "handshake w args s (r # rest) = out (s'\<lparr>s_err := recv_err r\<rparr>)"
    using Nil.prems(7) s'(1) by (subst handshake.simps) (cases r, simp_all)
  then show ?case
    using s' c
    by (simp add: out_def sent_codes_append transfers_append closes_append
        closes_simps transfers_Nil_Cons)
next
  case (Cons p ps)
  have lt: "s_ulreqs s < 5" using Cons.prems(3,4) by simp
  have xfer: "w_transfer w (s_nxfer s) = 0" using Cons.prems(5) by simp
  let ?s1 = "(reset_tx s)\<lparr>s_ulreqs := s_ulreqs s + 1, s_err := 0, s_nxfer := s_nxfer s + 1,
        s_expect := NMRP_C_CLOSE_REQ,
        s_trace := s_trace s @ [Transfer, SetRxTimeout (a_ul_timeout args)]\<rparr>"
  let ?s2 = "?s1\<lparr>s_err := 0, s_rx := p,
        s_trace := s_trace ?s1 @ [SetRxTimeout (a_rx_timeout args)]\<rparr>"
  have step: "handle_msg w args s = Continue ?s1"
    using Cons.prems(1) lt xfer by (rule handle_msg_upload)
  have unf: "handshake w args s (map Received (p # ps) @ r # rest) =
      handshake w args ?s2 (map Received ps @ r # rest)"
    by (subst handshake.simps) (simp add: step)
  have "\<exists>tr. handshake w args ?s2 (map Received ps @ r # rest) = (Returned (recv_err r), tr)
      \<and> transfers tr = transfers (s_trace ?s2) + length ps
      \<and> sent_codes tr = sent_codes (s_trace ?s2) @ [NMRP_C_CLOSE_REQ]
      \<and> closes tr = closes (s_trace ?s2) + 1"
  proof (rule Cons.IH)
    show "m_code (p_msg (s_rx ?s2)) = NMRP_C_TFTP_UL_REQ" using Cons.prems(2) by simp
    show "\<forall>p \<in> set ps. m_code (p_msg p) = NMRP_C_TFTP_UL_REQ" using Cons.prems(2) by simp
    show "0 \<le> s_ulreqs ?s2" using Cons.prems(3) by (simp add: reset_tx_def)
    show "s_ulreqs ?s2 + int (length ps) = 5" using Cons.prems(4) by (simp add: reset_tx_def)
    show "\<forall>n. w_transfer w n = 0" by (rule Cons.prems(5))
    show "w_send_ok w (s_nsend ?s2)" using Cons.prems(6) by (simp add: reset_tx_def)
    show "recv_err r \<noteq> 0" by (rule Cons.prems(7))
  qed
  then show ?case
    unfolding unf
    by (simp add: reset_tx_def sent_codes_append transfers_append closes_append
        closes_simps transfers_Nil_Cons)
qed

lemma six_upload_requests_then_failed_receive:
  assumes first: "m_code (p_msg (s_rx s)) = NMRP_C_TFTP_UL_REQ" and fresh: "s_ulreqs s = 0"
    and more: "length ps = 5" "\<forall>p \<in> set ps. m_code (p_msg p) = NMRP_C_TFTP_UL_REQ"
    and xfer: "\<forall>n. w_transfer w n = 0" and send: "w_send_ok w (s_nsend s)"
    and fail: "recv_err r \<noteq> 0"
  shows "\<exists>tr. handshake w args s (map Received ps @ r # rest) = (Returned (recv_err r), tr)
      \<and> recv_err r \<noteq> 0
      \<and> transfers tr = transfers (s_trace s) + 5
      \<and> sent_codes tr = sent_codes (s_trace s) @ [NMRP_C_CLOSE_REQ]
      \<and> closes tr = closes (s_trace s) + 1"
  using handshake_upload_requests [of s ps w r args rest] assms by simp

lemma six_upload_requests_then_timeout:
  "m_code (p_msg (s_rx upload_state)) = NMRP_C_TFTP_UL_REQ \<and> s_ulreqs upload_state = 0
   \<and> (\<exists>tr. handshake (world_of []) args_ok upload_state
          (map Received (replicate 5 (rx_pkt local_mac device_mac NMRP_C_TFTP_UL_REQ))
           @ RecvTimeout # []) = (Returned 2, tr)
        \<and> transfers tr = 5 \<and> sent_codes tr = [NMRP_C_CLOSE_REQ] \<and> closes tr = 1)"
proof -
  let ?ps = "replicate 5 (rx_pkt local_mac device_mac NMRP_C_TFTP_UL_REQ)"
  have first: "m_code (p_msg (s_rx upload_state)) = NMRP_C_TFTP_UL_REQ"
    by (simp add: upload_state_def rx_pkt_def)
  have fresh: "s_ulreqs upload_state = 0" by (simp add: upload_state_def)
  have more: "length ?ps = 5" "\<forall>p \<in> set ?ps. m_code (p_msg p) = NMRP_C_TFTP_UL_REQ"
    by (simp_all add: rx_pkt_def)
  have xfer: "\<forall>n. w_transfer (world_of []) n = 0" by (simp add: world_of_def)
  have send: "w_send_ok (world_of []) (s_nsend upload_state)" by (simp add: world_of_def)
  have fail: "recv_err RecvTimeout \<noteq> 0" by simp
  have tr0: "s_trace upload_state = []" by (simp add: upload_state_def)
  show ?thesis
    using first fresh
      six_upload_requests_then_failed_receive [OF first fresh more xfer send fail, of args_ok "[]"]
    by (simp add: tr0 transfers_Nil_Cons closes_simps)
qed

subsection \<open>Whole sessions\<close>

lemma scenario_happy_path:
  "fst (nmrp_do (world_of happy_path) args_ok) = Returned 0
   \<and> sent_codes (snd (nmrp_do (world_of happy_path) args_ok)) =
        [NMRP_C_ADVERTISE, NMRP_C_CONF_ACK, NMRP_C_CLOSE_ACK]
   \<and> transfers (snd (nmrp_do (world_of happy_path) args_ok)) = 1
   \<and> closes (snd (nmrp_do (world_of happy_path) args_ok)) = 1"
  by code_simp

lemma scenario_keep_alive:
  "fst (nmrp_do (world_of [from_device NMRP_C_CONF_REQ, from_device NMRP_C_KEEP_ALIVE_REQ,
        from_device NMRP_C_TFTP_UL_REQ, from_device NMRP_C_CLOSE_REQ]) args_ok) = Returned 0
   \<and> sent_codes (snd (nmrp_do (world_of [from_device NMRP_C_CONF_REQ,
        from_device NMRP_C_KEEP_ALIVE_REQ, from_device NMRP_C_TFTP_UL_REQ,
        from_device NMRP_C_CLOSE_REQ]) args_ok)) =
      [NMRP_C_ADVERTISE, NMRP_C_CONF_ACK, NMRP_C_KEEP_ALIVE_ACK, NMRP_C_CLOSE_ACK]
   \<and> transfers (snd (nmrp_do (world_of [from_device NMRP_C_CONF_REQ,
        from_device NMRP_C_KEEP_ALIVE_REQ, from_device NMRP_C_TFTP_UL_REQ,
        from_device NMRP_C_CLOSE_REQ]) args_ok)) = 1"
  by code_simp

lemma retry_exhaustion_then_timeout:
  "fst (nmrp_do (world_of (butlast six_upload_requests @ [RecvTimeout])) args_ok) = Returned 2
   \<and> transfers (snd (nmrp_do (world_of (butlast six_upload_requests @ [RecvTimeout])) args_ok)) = 5
   \<and> sent_codes (snd (nmrp_do (world_of (butlast six_upload_requests @ [RecvTimeout])) args_ok)) =
        [NMRP_C_ADVERTISE, NMRP_C_CONF_ACK, NMRP_C_CLOSE_REQ]"
  by code_simp

lemma retry_exhaustion_waits:
  "fst (nmrp_do (world_of (butlast six_upload_requests)) args_ok) = Blocked"
  by code_simp

lemma advertise_budget_after_timeout:
  "fst (nmrp_do ((world_of [RecvTimeout])\<lparr>w_time := (\<lambda>n. if n = 0 then 0 else 60)\<rparr>) args_ok)
     = Returned 2"
  by code_simp

section \<open>The claims\<close>

subsection \<open>C1: encoding then decoding gives the message back\<close>

text \<open>
  Claim C1. Let \<open>m\<close> be a message whose \<^verbatim>\<open>num_opts\<close> options fit the option array,
  each option declaring a length of at least \<^verbatim>\<open>NMRP_OPT_LEN\<close> = 4, and whose length
  field is 6 plus the sum of the declared option lengths. Then \<^verbatim>\<open>msg_hton\<close>
  succeeds on \<open>m\<close>, and \<^verbatim>\<open>msg_ntoh\<close> applied to the encoded message succeeds and
  yields \<open>m\<close> itself: the same reserved field, code, id, length, option count and, for
  every option, the same type, length and payload.
\<close>

theorem msg_hton_ntoh_roundtrip:
  assumes cap: "unat (m_num_opts m) \<le> length (m_opts m)"
    and wf: "\<forall>i < unat (m_num_opts m). NMRP_OPT_LEN \<le> unat (o_len (m_opts m ! i))"
    and len: "unat (m_len m) =
      NMRP_HDR_LEN + (\<Sum>i < unat (m_num_opts m). unat (o_len (m_opts m ! i)))"
  shows "\<exists>e. msg_hton m = Some e \<and> msg_ntoh e = (NtohOk, m)"
proof -
  let ?n = "unat (m_num_opts m)"
  let ?h = "m\<lparr>m_reserved := htons (m_reserved m), m_len := htons (m_len m)\<rparr>"
  let ?e = "?h\<lparr>m_opts := upd_range hton_opt 0 ?n (m_opts m)\<rparr>"
  have enc: "msg_hton m = Some ?e"
    unfolding msg_hton_def using cap by (subst msg_hton_loop_eq) simp_all
  let ?d = "msg_hdr_ntoh ?e"
  have d: "?d = m\<lparr>m_opts := upd_range hton_opt 0 ?n (m_opts m)\<rparr>"
    by (simp add: msg_hdr_ntoh_def ntohs_htons)
  have lens: "\<And>j. j < ?n \<Longrightarrow> ntohs (o_len (m_opts ?d ! j)) = o_len (m_opts m ! j)"
    using cap by (simp add: d upd_range_nth hton_opt_def ntohs_htons)
  have rem: "uint (m_len ?d) - int NMRP_HDR_LEN =
      (\<Sum>j = 0..<?n. int (unat (ntohs (o_len (m_opts ?d ! j)))))"
  proof -
    have "(\<Sum>j = 0..<?n. int (unat (ntohs (o_len (m_opts ?d ! j))))) =
        (\<Sum>j = 0..<?n. int (unat (o_len (m_opts m ! j))))"
      by (rule sum.cong) (simp_all add: lens)
    also have "\<dots> = int (\<Sum>j<?n. unat (o_len (m_opts m ! j)))"
      by (simp add: atLeast0LessThan)
    also have "\<dots> = int (unat (m_len m)) - int NMRP_HDR_LEN"
      using len by simp
    finally show ?thesis by (simp add: d)
  qed
  have "msg_ntoh_loop ?d (uint (m_len ?d) - int NMRP_HDR_LEN) 0 =
      (NtohOk, ?d\<lparr>m_opts := upd_range ntoh_opt 0 ?n (m_opts ?d)\<rparr>)"
  proof (rule msg_ntoh_loop_eq)
    show "0 \<le> ?n" by simp
    show "?n \<le> length (m_opts ?d)" using cap by (simp add: d length_upd_range)
    show "\<forall>j. 0 \<le> j \<and> j < ?n \<longrightarrow> 4 \<le> unat (ntohs (o_len (m_opts ?d ! j)))"
      using wf lens by (simp add: NMRP_OPT_LEN_def)
    show "uint (m_len ?d) - int NMRP_HDR_LEN =
        (\<Sum>j = 0..<?n. int (unat (ntohs (o_len (m_opts ?d ! j)))))"
      by (rule rem)
  qed
  also have "?d\<lparr>m_opts := upd_range ntoh_opt 0 ?n (m_opts ?d)\<rparr> = m"
    by (simp add: d upd_range_inverse ntoh_hton_opt)
  finally have "msg_ntoh ?e = (NtohOk, m)"
    by (simp add: msg_ntoh_def Let_def)
  with enc show ?thesis by blast
qed

text \<open>The configure-ack message of \<^verbatim>\<open>nmrp_do\<close>, two options in an array of two.\<close>

theorem msg_hton_ntoh_roundtrip_witness:
  "unat (m_num_opts conf_ack_example) \<le> length (m_opts conf_ack_example) \<and>
   (\<exists>e. msg_hton conf_ack_example = Some e \<and> msg_ntoh e = (NtohOk, conf_ack_example))"
proof -
  have cap: "unat (m_num_opts conf_ack_example) \<le> length (m_opts conf_ack_example)"
    by (simp add: conf_ack_example_def)
  have wf: "\<forall>i < unat (m_num_opts conf_ack_example).
      NMRP_OPT_LEN \<le> unat (o_len (m_opts conf_ack_example ! i))"
    by (simp add: conf_ack_example_def NMRP_OPT_LEN_def all_less_2)
  have len: "unat (m_len conf_ack_example) = NMRP_HDR_LEN +
      (\<Sum>i < unat (m_num_opts conf_ack_example). unat (o_len (m_opts conf_ack_example ! i)))"
    by (simp add: conf_ack_example_def NMRP_HDR_LEN_def sum_less_2)
  show ?thesis using cap msg_hton_ntoh_roundtrip [OF cap wf len] by simp
qed

subsection \<open>C2: where msg_ntoh looks for the option headers\<close>

text \<open>
  Claim C2 says that the decoder finds each option header at offset 6 plus the sum of
  the declared lengths of the options before it. \<^verbatim>\<open>msg_ntoh\<close> advances with
  \<^verbatim>\<open>++opt\<close>, 12 bytes at a time (lemma \<open>msg_ntoh_header_offsets\<close>), while
  \<^verbatim>\<open>msg_dump\<close> walks the same list with \<^verbatim>\<open>opt = (char*)opt + len\<close>. The theorem
  runs \<^verbatim>\<open>msg_ntoh\<close> on \<open>two_opts_wire\<close>: the first option declares 8 bytes, so the
  second header (device-IP, 12 bytes) stands at offset 6 + 8 = 14; \<^verbatim>\<open>msg_ntoh\<close>
  succeeds and reports as the type of the second option the two bytes at offset
  6 + 12 = 18, which are the first half of the IP address.
\<close>

theorem msg_ntoh_fixed_stride:
  "fst (msg_ntoh (msg_in_memory two_opts_wire)) = NtohOk
   \<and> net16 two_opts_wire (NMRP_HDR_LEN + 2) = 8
   \<and> net16 two_opts_wire (NMRP_HDR_LEN + 8) = NMRP_O_DEV_IP
   \<and> net16 two_opts_wire (NMRP_HDR_LEN + 8 + 2) = 12
   \<and> o_type (m_opts (snd (msg_ntoh (msg_in_memory two_opts_wire))) ! 1)
       = net16 two_opts_wire (NMRP_HDR_LEN + SIZEOF_NMRP_OPT)
   \<and> o_type (m_opts (snd (msg_ntoh (msg_in_memory two_opts_wire))) ! 1) = 0xC0A8"
  by code_simp

subsection \<open>C3: the outcomes of msg_ntoh\<close>

text \<open>
  Claim C3 says that option decoding reports "too short" exactly when fewer than 4
  bytes remain where an option header is expected, "trailing" exactly when the
  declared lengths of the whole options do not consume the declared message length
  exactly, and succeeds otherwise. \<^verbatim>\<open>msg_ntoh\<close> does not do that, for the two reasons
  of C2 and C10: it takes the length of the second option from offset 6 + 12 instead
  of 6 plus the first declared length, and it has no bound on \<^verbatim>\<open>opt\<close>. The theorem
  runs it on three messages.
  \<^item> \<open>packed_two_opts_wire\<close>: length 22, two options declaring 8 bytes each, so the
    declared length is consumed exactly and the claim has success; \<^verbatim>\<open>msg_ntoh\<close> reads
    the second length at offset 20 (the bytes 00 09 of the payload), arrives at
    remainder -1 and reports "Trailing data in message.".
  \<^item> \<open>overlong_second_wire\<close>: length 26, the second option declares 16 bytes where 12
    remain, so the claim has the trailing error; \<^verbatim>\<open>msg_ntoh\<close> reads the length 12 at
    offset 20 (the bytes 00 0c of the address) and succeeds.
  \<^item> \<open>three_opts_wire\<close>: length 18, three whole options of 4 bytes, so the claim has
    success; \<^verbatim>\<open>msg_ntoh\<close> reads \<^verbatim>\<open>opts[1]\<close> (zero bytes behind the message) and
    then leaves the array with no outcome defined.
\<close>

theorem msg_ntoh_misclassifies_packed_options:
  "net16 packed_two_opts_wire 4 = 22
   \<and> net16 packed_two_opts_wire (NMRP_HDR_LEN + 2) = 8
   \<and> net16 packed_two_opts_wire (NMRP_HDR_LEN + 8 + 2) = 8
   \<and> fst (msg_ntoh (msg_in_memory packed_two_opts_wire)) = Trailing
   \<and> net16 overlong_second_wire 4 = 26
   \<and> net16 overlong_second_wire (NMRP_HDR_LEN + 2) = 8
   \<and> net16 overlong_second_wire (NMRP_HDR_LEN + 8 + 2) = 16
   \<and> fst (msg_ntoh (msg_in_memory overlong_second_wire)) = NtohOk
   \<and> net16 three_opts_wire 4 = 18
   \<and> fst (msg_ntoh (msg_in_memory three_opts_wire)) = OutOfBounds"
  by code_simp

subsection \<open>C4: six upload-requests\<close>

text \<open>
  Claim C4 says that six upload-requests in a row, every transfer succeeding, end the
  session with failure after 5 transfers and a close-request. The sixth request makes
  \<^verbatim>\<open>nmrp_do\<close> print "aborting" and send the close-request, but the loop then calls
  \<^verbatim>\<open>pkt_recv\<close> again (lemma \<open>handle_msg_upload_exhausted\<close>), and what that returns
  decides the result. In \<open>six_upload_requests\<close> the device answers the close-request
  with a close-ack: 5 transfers, the close-request sent, and \<^verbatim>\<open>nmrp_do\<close> returns 0,
  success. (When that \<^verbatim>\<open>pkt_recv\<close> fails or times out instead, the session does
  end with failure, lemma \<open>six_upload_requests_then_failed_receive\<close>.)
\<close>

theorem retry_exhaustion_then_close_ack:
  "fst (nmrp_do (world_of six_upload_requests) args_ok) = Returned 0
   \<and> transfers (snd (nmrp_do (world_of six_upload_requests) args_ok)) = 5
   \<and> sent_codes (snd (nmrp_do (world_of six_upload_requests) args_ok)) =
        [NMRP_C_ADVERTISE, NMRP_C_CONF_ACK, NMRP_C_CLOSE_REQ]"
  by code_simp

subsection \<open>C5: a frame of another protocol\<close>

text \<open>
  Claim C5, amended. When the peeked frame has an Ethernet header whose Ethertype is
  not 0x0912, \<^verbatim>\<open>pkt_recv\<close> returns 3 (wrong protocol) at once: there is no second
  \<^verbatim>\<open>recvfrom\<close>, and the frame is still the first in the socket's queue when
  \<^verbatim>\<open>pkt_recv\<close> returns.
\<close>

theorem pkt_recv_wrong_protocol:
  assumes len: "ETH_HDR_LEN \<le> length f" and ty: "net16 f 12 \<noteq> ETH_P_NMRP"
  shows "fst (pkt_recv (Frame f # q)) = Some 3
       \<and> snd (snd (pkt_recv (Frame f # q))) = Frame f # q"
proof -
  let ?n = "min NMRP_MIN_PKT_LEN (length f)"
  let ?buf = "take ?n f @ drop ?n (replicate SIZEOF_NMRP_PKT 0)"
  have n: "14 \<le> ?n" "?n \<le> length f" "?n \<le> SIZEOF_NMRP_PKT"
    using len by (simp_all add: NMRP_MIN_PKT_LEN_def ETH_HDR_LEN_def NMRP_HDR_LEN_def
        SIZEOF_NMRP_PKT_def SIZEOF_NMRP_MSG_def)
  have peek: "recvfrom (Frame f # q) (replicate SIZEOF_NMRP_PKT 0) NMRP_MIN_PKT_LEN True =
      (Bytes ?n, ?buf, Frame f # q)"
    using n(3) by (auto simp add: Let_def not_less)
  have b12: "?buf ! 12 = f ! 12" using n by (intro peek_buf_nth) simp_all
  have b13: "?buf ! 13 = f ! 13" using n by (intro peek_buf_nth) simp_all
  have "ntohs (eh_type (p_eh (pkt_of_bytes ?buf))) = net16 ?buf 12"
    by (simp add: pkt_of_bytes_def ntohs_host16)
  also have "\<dots> = net16 f 12"
    using b12 b13 by (simp add: net16_def)
  finally have "ntohs (eh_type (p_eh (pkt_of_bytes ?buf))) \<noteq> ETH_P_NMRP"
    using ty by simp
  then show ?thesis
    unfolding pkt_recv_def peek by simp
qed

theorem pkt_recv_wrong_protocol_witness:
  "ETH_HDR_LEN \<le> length ipv4_frame \<and> net16 ipv4_frame 12 \<noteq> ETH_P_NMRP
   \<and> fst (pkt_recv [Frame ipv4_frame, Frame conf_req_frame]) = Some 3
   \<and> snd (snd (pkt_recv [Frame ipv4_frame, Frame conf_req_frame])) =
       [Frame ipv4_frame, Frame conf_req_frame]"
proof -
  have len: "ETH_HDR_LEN \<le> length ipv4_frame" by code_simp
  have ty: "net16 ipv4_frame 12 \<noteq> ETH_P_NMRP" by code_simp
  show ?thesis using len ty pkt_recv_wrong_protocol [OF len ty, of "[Frame conf_req_frame]"]
    by simp
qed

text \<open>
  The claim as stated has \<^verbatim>\<open>pkt_recv\<close> drain the frame before it returns. On a
  socket holding one IPv4 frame, \<^verbatim>\<open>pkt_recv\<close> returns 3 and the frame is still there.
\<close>

theorem pkt_recv_wrong_protocol_counterexample:
  "net16 ipv4_frame 12 = 0x0800
   \<and> fst (pkt_recv [Frame ipv4_frame]) = Some 3
   \<and> snd (snd (pkt_recv [Frame ipv4_frame])) = [Frame ipv4_frame]"
  by code_simp

subsection \<open>C6: the socket after a failed setup\<close>

text \<open>
  Claim C6 says that every return behind a successful \<^verbatim>\<open>socket\<close> closes the socket
  exactly once. That holds once \<^verbatim>\<open>intf_get_info\<close>, \<^verbatim>\<open>sock_bind_to_intf\<close> and
  \<^verbatim>\<open>sock_set_rx_timeout\<close> have succeeded (lemma \<open>nmrp_do_closes_once\<close>: every later
  exit goes through the label \<^verbatim>\<open>out\<close>). When one of the three fails, \<^verbatim>\<open>nmrp_do\<close>
  returns 1 directly: the socket was opened and is not closed.
\<close>

theorem socket_left_open_on_setup_failure:
  "nmrp_do ((world_of happy_path)\<lparr>w_intf_info := None\<rparr>) args_ok = (Returned 1, [Socket])
   \<and> nmrp_do ((world_of happy_path)\<lparr>w_bind_ok := False\<rparr>) args_ok = (Returned 1, [Socket])
   \<and> nmrp_do ((world_of happy_path)\<lparr>w_timeout_ok := False\<rparr>) args_ok = (Returned 1, [Socket])
   \<and> closes [Socket] = 0"
  by code_simp

subsection \<open>C7: the end of the advertising loop\<close>

text \<open>
  Claim C7 has three parts. The loop leaves for the handshake only on a message whose
  destination is the local address (lemma \<open>advertise_break\<close>), and every round sends
  the advertisement again (lemma \<open>advertise_Cons\<close>). But when 60 seconds are over
  the loop jumps to \<^verbatim>\<open>out\<close> with \<^verbatim>\<open>err\<close> as the last \<^verbatim>\<open>pkt_recv\<close> left it (lemma
  \<open>advertise_budget_exceeded\<close>). In \<open>overheard\<close> that \<^verbatim>\<open>pkt_recv\<close> returned 0, for
  a message addressed to another host, and the clock shows 60 seconds: \<^verbatim>\<open>nmrp_do\<close>
  prints "No response after 60 seconds. Bailing out." and returns 0, success.
\<close>

theorem advertise_budget_returns_success:
  "fst (nmrp_do ((world_of overheard)\<lparr>w_time := (\<lambda>n. if n = 0 then 0 else 60)\<rparr>) args_ok)
     = Returned 0
   \<and> sent_codes (snd (nmrp_do ((world_of overheard)\<lparr>w_time := (\<lambda>n. if n = 0 then 0 else 60)\<rparr>)
        args_ok)) = [NMRP_C_ADVERTISE]"
  by code_simp

subsection \<open>C8: the length field is recomputed before every encoding\<close>

text \<open>
  Claim C8. \<^verbatim>\<open>nmrp_do\<close> calls \<^verbatim>\<open>msg_update_len\<close> and then \<^verbatim>\<open>msg_hton\<close> before
  every send. For a message whose \<^verbatim>\<open>num_opts\<close> options fit the array, both succeed;
  \<^verbatim>\<open>msg_update_len\<close> changes the length field only, to 6 plus the sum of the
  declared lengths of the \<^verbatim>\<open>num_opts\<close> options (in the 16-bit arithmetic of the
  field, which is the sum itself whenever that is below 65536); the encoded length is
  that value in network order; a message without options gets length 6; the result
  does not depend on the length the message held before; and after any change of the
  option list (within the array) the next \<^verbatim>\<open>msg_update_len\<close> gives 6 plus the sum
  over the new options. Lemma \<open>reply_recomputes_length\<close> is the same for the place in
  \<^verbatim>\<open>nmrp_do\<close> where every reply is sent.
\<close>

theorem msg_update_len_recomputes:
  assumes cap: "unat (m_num_opts m) \<le> length (m_opts m)"
  shows "\<exists>u e. msg_update_len m = Some u \<and> msg_hton u = Some e
      \<and> u = m\<lparr>m_len := of_nat NMRP_HDR_LEN + (\<Sum>i<unat (m_num_opts m). o_len (m_opts m ! i))\<rparr>
      \<and> ntohs (m_len e) = m_len u
      \<and> (NMRP_HDR_LEN + (\<Sum>i<unat (m_num_opts m). unat (o_len (m_opts m ! i))) < 2 ^ 16 \<longrightarrow>
           unat (m_len u) = NMRP_HDR_LEN + (\<Sum>i<unat (m_num_opts m). unat (o_len (m_opts m ! i))))
      \<and> (m_num_opts m = 0 \<longrightarrow> unat (m_len u) = 6)
      \<and> (\<forall>l. msg_update_len (m\<lparr>m_len := l\<rparr>) = Some u)
      \<and> (\<forall>opts' n'. unat n' \<le> length opts' \<longrightarrow>
            (\<exists>u'. msg_update_len (u\<lparr>m_opts := opts', m_num_opts := n'\<rparr>) = Some u'
               \<and> m_len u' = of_nat NMRP_HDR_LEN + (\<Sum>i<unat n'. o_len (opts' ! i))))"
proof -
  let ?n = "unat (m_num_opts m)"
  let ?u = "m\<lparr>m_len := of_nat NMRP_HDR_LEN + (\<Sum>i<?n. o_len (m_opts m ! i))\<rparr>"
  let ?h = "?u\<lparr>m_reserved := htons (m_reserved ?u), m_len := htons (m_len ?u)\<rparr>"
  let ?e = "?h\<lparr>m_opts := upd_range hton_opt 0 ?n (m_opts m)\<rparr>"
  have u: "msg_update_len m = Some ?u" using cap by (rule msg_update_len_eq)
  have e: "msg_hton ?u = Some ?e"
    unfolding msg_hton_def using cap by (subst msg_hton_loop_eq) simp_all
  have wire: "ntohs (m_len ?e) = m_len ?u" by (simp add: ntohs_htons)
  have nat: "NMRP_HDR_LEN + (\<Sum>i<?n. unat (o_len (m_opts m ! i))) < 2 ^ 16 \<longrightarrow>
      unat (m_len ?u) = NMRP_HDR_LEN + (\<Sum>i<?n. unat (o_len (m_opts m ! i)))"
    using unat_len_sum [where n = "?n" and f = "\<lambda>i. o_len (m_opts m ! i)"] by simp
  have hdr: "m_num_opts m = 0 \<longrightarrow> unat (m_len ?u) = 6"
    by (simp add: NMRP_HDR_LEN_def)
  have indep: "\<forall>l. msg_update_len (m\<lparr>m_len := l\<rparr>) = Some ?u"
    using cap by (simp add: msg_update_len_eq)
  have mut: "\<forall>opts' n'. unat n' \<le> length opts' \<longrightarrow>
      (\<exists>u'. msg_update_len (?u\<lparr>m_opts := opts', m_num_opts := n'\<rparr>) = Some u'
         \<and> m_len u' = of_nat NMRP_HDR_LEN + (\<Sum>i<unat n'. o_len (opts' ! i)))"
    by (simp add: msg_update_len_eq)
  from u e wire nat hdr indep mut show ?thesis by blast
qed

theorem msg_update_len_recomputes_witness:
  "unat (m_num_opts conf_ack_example) \<le> length (m_opts conf_ack_example) \<and>
   (\<exists>u e. msg_update_len (conf_ack_example\<lparr>m_len := 0\<rparr>) = Some u \<and> msg_hton u = Some e
      \<and> unat (m_len u) = 22 \<and> unat (ntohs (m_len e)) = 22)"
proof -
  let ?m = "conf_ack_example\<lparr>m_len := 0\<rparr>"
  have cap: "unat (m_num_opts ?m) \<le> length (m_opts ?m)"
    by (simp add: conf_ack_example_def)
  have val: "NMRP_HDR_LEN + (\<Sum>i<unat (m_num_opts ?m). unat (o_len (m_opts ?m ! i))) = 22"
    by (simp add: conf_ack_example_def NMRP_HDR_LEN_def sum_less_2)
  from msg_update_len_recomputes [OF cap] obtain u e where
    ue: "msg_update_len ?m = Some u" "msg_hton u = Some e" "ntohs (m_len e) = m_len u" and
    imp: "NMRP_HDR_LEN + (\<Sum>i<unat (m_num_opts ?m). unat (o_len (m_opts ?m ! i))) < 2 ^ 16 \<longrightarrow>
       unat (m_len u) = NMRP_HDR_LEN + (\<Sum>i<unat (m_num_opts ?m). unat (o_len (m_opts ?m ! i)))"
    by blast
  from imp have "unat (m_len u) = 22" unfolding val by simp
  with ue have "msg_update_len ?m = Some u \<and> msg_hton u = Some e
      \<and> unat (m_len u) = 22 \<and> unat (ntohs (m_len e)) = 22"
    by simp
  then show ?thesis using cap by (auto simp: conf_ack_example_def)
qed

subsection \<open>C9: a keep-alive-request\<close>

text \<open>
  Claim C9. Whatever the state of the handshake, a round that finds a
  keep-alive-request in \<^verbatim>\<open>rx\<close> makes exactly one \<^verbatim>\<open>pkt_send\<close>, of a
  keep-alive-ack without options (20 bytes with the Ethernet header) to the current
  peer, and leaves \<^verbatim>\<open>expect\<close>, the peer address (\<^verbatim>\<open>addr.sll_addr\<close> and the
  destination in \<^verbatim>\<open>tx\<close>) and \<^verbatim>\<open>ulreqs\<close> as they were. When the send succeeds the
  round arrives at \<^verbatim>\<open>pkt_recv\<close>, and the next message received is handled by the
  same loop from that state (after the receive timeout is set back to
  \<^verbatim>\<open>rx_timeout\<close>, as after every message); when the send fails the session ends.
\<close>

theorem keep_alive_round:
  assumes ka: "m_code (p_msg (s_rx s)) = NMRP_C_KEEP_ALIVE_REQ"
  shows "handle_msg w args s =
           (if w_send_ok w (s_nsend s) then Continue (after_keep_alive s)
            else Goto_out (after_keep_alive s))
       \<and> s_trace (after_keep_alive s) =
           s_trace s @ [Send (s_addr s) NMRP_MIN_PKT_LEN (keep_alive_ack (s_tx s))]
       \<and> m_code (p_msg (keep_alive_ack (s_tx s))) = NMRP_C_KEEP_ALIVE_ACK
       \<and> ntohs (m_len (p_msg (keep_alive_ack (s_tx s)))) = 6
       \<and> s_expect (after_keep_alive s) = s_expect s
       \<and> s_addr (after_keep_alive s) = s_addr s
       \<and> eh_dhost (p_eh (s_tx (after_keep_alive s))) = eh_dhost (p_eh (s_tx s))
       \<and> s_ulreqs (after_keep_alive s) = s_ulreqs s
       \<and> (w_send_ok w (s_nsend s) \<longrightarrow>
            handshake w args s (Received p # rs) =
              handshake w args
                ((after_keep_alive s)\<lparr>s_err := 0, s_rx := p,
                    s_trace := s_trace (after_keep_alive s) @ [SetRxTimeout (a_rx_timeout args)]\<rparr>)
                rs)"
proof -
  have step: "handle_msg w args s =
      (if w_send_ok w (s_nsend s) then Continue (after_keep_alive s)
       else Goto_out (after_keep_alive s))"
    using ka by (rule handle_msg_keep_alive)
  have next_msg: "w_send_ok w (s_nsend s) \<longrightarrow>
      handshake w args s (Received p # rs) =
        handshake w args
          ((after_keep_alive s)\<lparr>s_err := 0, s_rx := p,
              s_trace := s_trace (after_keep_alive s) @ [SetRxTimeout (a_rx_timeout args)]\<rparr>)
          rs"
    by (subst handshake.simps) (simp add: step)
  show ?thesis
    using step next_msg
    by (simp add: after_keep_alive_def keep_alive_ack_def ntohs_htons NMRP_C_KEEP_ALIVE_ACK_def)
qed

text \<open>A keep-alive-request while the upload-request is awaited.\<close>

theorem keep_alive_round_witness:
  "m_code (p_msg (s_rx keep_alive_state)) = NMRP_C_KEEP_ALIVE_REQ
   \<and> handle_msg (world_of []) args_ok keep_alive_state = Continue (after_keep_alive keep_alive_state)
   \<and> s_expect (after_keep_alive keep_alive_state) = NMRP_C_TFTP_UL_REQ
   \<and> s_ulreqs (after_keep_alive keep_alive_state) = 0
   \<and> s_addr (after_keep_alive keep_alive_state) = device_mac"
proof -
  have ka: "m_code (p_msg (s_rx keep_alive_state)) = NMRP_C_KEEP_ALIVE_REQ"
    by (simp add: keep_alive_state_def rx_pkt_def)
  have ok: "w_send_ok (world_of []) (s_nsend keep_alive_state)"
    by (simp add: world_of_def)
  have st: "s_expect keep_alive_state = NMRP_C_TFTP_UL_REQ" "s_ulreqs keep_alive_state = 0"
      "s_addr keep_alive_state = device_mac"
    by (simp_all add: keep_alive_state_def)
  show ?thesis
    using ka ok st keep_alive_round [OF ka, of "world_of []" args_ok]
    by simp
qed

subsection \<open>C10: an option of declared length zero\<close>

text \<open>
  Claim C10 says that the loop of \<^verbatim>\<open>msg_ntoh\<close> terminates on every message. The loop
  has no bound on \<^verbatim>\<open>opt\<close> and ends only when \<^verbatim>\<open>remaining\<close> falls below 4. On
  \<open>zero_len_wire\<close> (length 10, one option header declaring length 0) the remainder
  stays 4: the loop reads \<^verbatim>\<open>opts[0]\<close>, then \<^verbatim>\<open>opts[1]\<close> (zero bytes behind the
  message, length 0 again) and then dereferences \<^verbatim>\<open>opt\<close> behind the array, with no
  return value defined.
\<close>

theorem msg_ntoh_zero_length_option:
  "net16 zero_len_wire 4 = 10 \<and> net16 zero_len_wire 8 = 0
   \<and> fst (msg_ntoh (msg_in_memory zero_len_wire)) = OutOfBounds
   \<and> ntoh_ret (fst (msg_ntoh (msg_in_memory zero_len_wire))) = None"
  by code_simp

end
